theory Spec2Isabelle
  imports Complex_Main
begin

section \<open>Run-time failures of the Go program\<close>

text \<open>
  A Go run-time panic ends the program; the model returns it as the left summand of a
  sum, one constructor per kind of panic the modelled functions can raise.
\<close>

datatype panic =
    IndexOutOfRange
  | SliceBoundsOutOfRange
  | IntegerDivideByZero
  | MakesliceLenOutOfRange

text \<open>
  Go's \<^verbatim>\<open>%\<close> on \<^verbatim>\<open>int\<close> truncates towards zero: the remainder has the sign of the
  dividend. A zero divisor panics, which every caller checks before using \<open>go_rem\<close>.
\<close>

definition go_rem :: "int \<Rightarrow> int \<Rightarrow> int" where
  "go_rem a b = sgn a * (\<bar>a\<bar> mod \<bar>b\<bar>)"

text \<open>
  The builtin \<^verbatim>\<open>copy(dst, src)\<close> overwrites the first
  \<open>min (length dst) (length src)\<close> elements of \<open>dst\<close> and leaves the rest.
\<close>

definition go_copy :: "'a list \<Rightarrow> 'a list \<Rightarrow> 'a list" where
  "go_copy dst src = take (length dst) src @ drop (length src) dst"

section \<open>The history buffer (\<^verbatim>\<open>GPUHistory\<close>)\<close>

text \<open>
  \<^verbatim>\<open>type GPUHistory struct { values []float64; maxLen int; index int }\<close>.
  The samples are stored and copied, never computed with, so the element type is left
  open; \<^verbatim>\<open>make\<close> fills a new slice with the zero value. The field \<^verbatim>\<open>values\<close> is
  written \<open>h_values\<close> (and the other two fields alike).
\<close>

record 'a GPUHistory =
  h_values :: "'a list"
  h_maxLen :: int
  h_index :: int

definition newGPUHistory :: "int \<Rightarrow> panic + ('a::zero) GPUHistory" where
  "newGPUHistory n =
     (if n < 0 then Inl MakesliceLenOutOfRange
      else Inr \<lparr> h_values = replicate (nat n) 0, h_maxLen = n, h_index = 0 \<rparr>)"

text \<open>
  \<^verbatim>\<open>gh.values[gh.index] = value; gh.index = (gh.index + 1) % gh.maxLen\<close>:
  the store panics when the index is outside the slice, the remainder when
  \<^verbatim>\<open>maxLen\<close> is zero.
\<close>

definition add :: "'a GPUHistory \<Rightarrow> 'a \<Rightarrow> panic + 'a GPUHistory" where
  "add gh v =
     (if h_index gh < 0 \<or> int (length (h_values gh)) \<le> h_index gh then Inl IndexOutOfRange
      else if h_maxLen gh = 0 then Inl IntegerDivideByZero
      else Inr (gh \<lparr> h_values := (h_values gh)[nat (h_index gh) := v],
                     h_index := go_rem (h_index gh + 1) (h_maxLen gh) \<rparr>))"

text \<open>
  \<^verbatim>\<open>getData\<close> has a pointer receiver, so the model returns the receiver next to the
  result; the body assigns to no field of it. With \<^verbatim>\<open>index == 0\<close> the slice returned
  is \<^verbatim>\<open>gh.values\<close> itself, otherwise a new slice filled by two \<^verbatim>\<open>copy\<close> calls.
\<close>

definition getData :: "('a::zero) GPUHistory \<Rightarrow> panic + ('a list \<times> 'a GPUHistory)" where
  "getData gh =
     (if h_index gh = 0 then Inr (h_values gh, gh)
      else if h_maxLen gh < 0 then Inl MakesliceLenOutOfRange
      else if h_index gh < 0 \<or> int (length (h_values gh)) < h_index gh
        then Inl SliceBoundsOutOfRange
      else if h_maxLen gh - h_index gh < 0 then Inl SliceBoundsOutOfRange
      else
        let result = replicate (nat (h_maxLen gh)) 0;
            result = go_copy result (drop (nat (h_index gh)) (h_values gh));
            k = nat (h_maxLen gh - h_index gh)
        in Inr (take k result @ go_copy (drop k result) (take (nat (h_index gh)) (h_values gh)),
                gh))"

text \<open>A run of \<^verbatim>\<open>add\<close> calls, one per value, stopping at the first panic.\<close>

fun add_all :: "'a GPUHistory \<Rightarrow> 'a list \<Rightarrow> panic + 'a GPUHistory" where
  "add_all gh [] = Inr gh"
| "add_all gh (v # vs) = (case add gh v of Inl e \<Rightarrow> Inl e | Inr gh' \<Rightarrow> add_all gh' vs)"

text \<open>
  The history part of the \<^verbatim>\<open><Resize>\<close> branch of \<^verbatim>\<open>main\<close>:
  \<^verbatim>\<open>newHistory := newGPUHistory(newDataPoints); oldData := gpuHistories[i].getData();
  for _, v := range oldData { newHistory.add(v) }\<close>.
\<close>

definition resizeHistory :: "('a::zero) GPUHistory \<Rightarrow> int \<Rightarrow> panic + 'a GPUHistory" where
  "resizeHistory old newDataPoints =
     (case newGPUHistory newDataPoints of
        Inl e \<Rightarrow> Inl e
      | Inr newHistory \<Rightarrow>
          (case getData old of
             Inl e \<Rightarrow> Inl e
           | Inr (oldData, _) \<Rightarrow> add_all newHistory oldData))"

definition calculateDataPoints :: "int \<Rightarrow> int" where
  "calculateDataPoints width =
     (let usableWidth = width - 4
      in if usableWidth < 50 then 50
         else if usableWidth > 500 then 500
         else usableWidth)"

text \<open>
  The state in which every buffer of the program is: \<^verbatim>\<open>newGPUHistory\<close> is only called
  with a positive capacity and \<^verbatim>\<open>add\<close> keeps the cursor inside the slice.
\<close>

definition hist_ok :: "'a GPUHistory \<Rightarrow> bool" where
  "hist_ok gh \<longleftrightarrow>
     0 < h_maxLen gh \<and> int (length (h_values gh)) = h_maxLen gh \<and>
     0 \<le> h_index gh \<and> h_index gh < h_maxLen gh"

text \<open>The series oldest first: the slots from the cursor on, then those before it.\<close>

definition chrono :: "'a GPUHistory \<Rightarrow> 'a list" where
  "chrono gh = drop (nat (h_index gh)) (h_values gh) @ take (nat (h_index gh)) (h_values gh)"

section \<open>The Go library functions the parsers call\<close>

text \<open>
  Go strings are byte sequences and so are the strings of the model. The functions of
  package \<^verbatim>\<open>strings\<close> are modelled on ASCII text, which is what the monitoring command
  prints: white space is the set of the library's ASCII table (tab, line feed, vertical
  tab, form feed, carriage return, space), and a byte from 0x80 on counts as a letter.
\<close>

definition isSpace :: "char \<Rightarrow> bool" where
  "isSpace c \<longleftrightarrow> c \<in> set [CHR 0x09, CHR 0x0A, CHR 0x0B, CHR 0x0C, CHR 0x0D, CHR '' '']"

definition HasPrefix :: "string \<Rightarrow> string \<Rightarrow> bool" where
  "HasPrefix s p \<longleftrightarrow> take (length p) s = p"

definition HasSuffix :: "string \<Rightarrow> string \<Rightarrow> bool" where
  "HasSuffix s p \<longleftrightarrow> length p \<le> length s \<and> drop (length s - length p) s = p"

definition TrimSuffix :: "string \<Rightarrow> string \<Rightarrow> string" where
  "TrimSuffix s p = (if HasSuffix s p then take (length s - length p) s else s)"

fun Contains :: "string \<Rightarrow> string \<Rightarrow> bool" where
  "Contains [] sub \<longleftrightarrow> sub = []"
| "Contains (c # cs) sub \<longleftrightarrow> HasPrefix (c # cs) sub \<or> Contains cs sub"

definition TrimSpace :: "string \<Rightarrow> string" where
  "TrimSpace s = rev (dropWhile isSpace (rev (dropWhile isSpace s)))"

text \<open>
  \<^verbatim>\<open>strings.Split(s, sep)\<close> for a separator of one byte, which is how both parsers call
  it: the pieces between the separators, empty pieces included, so never an empty list.
\<close>

fun Split :: "string \<Rightarrow> char \<Rightarrow> string list" where
  "Split [] sep = [[]]"
| "Split (c # cs) sep =
     (if c = sep then [] # Split cs sep
      else (case Split cs sep of [] \<Rightarrow> [[c]] | f # fs \<Rightarrow> (c # f) # fs))"

text \<open>\<^verbatim>\<open>strings.Fields\<close>: the maximal runs of bytes that are not white space.\<close>

fun Fields_from :: "string \<Rightarrow> string \<Rightarrow> string list" where
  "Fields_from cur [] = (if cur = [] then [] else [cur])"
| "Fields_from cur (c # cs) =
     (if isSpace c then (if cur = [] then Fields_from [] cs else cur # Fields_from [] cs)
      else Fields_from (cur @ [c]) cs)"

definition Fields :: "string \<Rightarrow> string list" where
  "Fields s = Fields_from [] s"

text \<open>
  Go compares strings with \<^verbatim>\<open><\<close> byte by byte, a proper prefix being smaller.
\<close>

fun string_less :: "string \<Rightarrow> string \<Rightarrow> bool" where
  "string_less [] [] \<longleftrightarrow> False"
| "string_less [] (y # ys) \<longleftrightarrow> True"
| "string_less (x # xs) [] \<longleftrightarrow> False"
| "string_less (x # xs) (y # ys) \<longleftrightarrow>
     (of_char x :: nat) < of_char y \<or> (x = y \<and> string_less xs ys)"

text \<open>
  Package \<^verbatim>\<open>strconv\<close>. A conversion returns a value and an error, and the parsers keep
  the value whatever the error is, so the model returns both. \<^verbatim>\<open>ParseUint\<close> in base 10
  reads left to right and stops at the first byte that is not a digit (value 0, syntax
  error) or at the first digit that takes the number past 64 bits (the largest value,
  range error).
\<close>

datatype num_error = ErrSyntax | ErrRange

definition isDigit :: "char \<Rightarrow> bool" where
  "isDigit c \<longleftrightarrow> (48::nat) \<le> of_char c \<and> (of_char c :: nat) \<le> 57"

definition digit_val :: "char \<Rightarrow> nat" where
  "digit_val c = of_char c - 48"

definition maxUint64 :: nat where
  "maxUint64 = 18446744073709551615"

fun ParseUint_loop :: "nat \<Rightarrow> string \<Rightarrow> nat \<times> num_error option" where
  "ParseUint_loop n [] = (n, None)"
| "ParseUint_loop n (c # cs) =
     (if \<not> isDigit c then (0, Some ErrSyntax)
      else if maxUint64 div 10 + 1 \<le> n then (maxUint64, Some ErrRange)
      else if maxUint64 < n * 10 + digit_val c then (maxUint64, Some ErrRange)
      else ParseUint_loop (n * 10 + digit_val c) cs)"

definition ParseUint :: "string \<Rightarrow> nat \<times> num_error option" where
  "ParseUint s = (if s = [] then (0, Some ErrSyntax) else ParseUint_loop 0 s)"

text \<open>
  \<^verbatim>\<open>strconv.ParseInt(s, 10, 64)\<close>: an optional sign, then \<^verbatim>\<open>ParseUint\<close>; a number out
  of the range of \<^verbatim>\<open>int64\<close> gives the nearest bound together with the range error.
  \<^verbatim>\<open>strconv.Atoi\<close> is the same function where \<^verbatim>\<open>int\<close> has 64 bits.
\<close>

definition ParseInt :: "string \<Rightarrow> int \<times> num_error option" where
  "ParseInt s =
     (if s = [] then (0, Some ErrSyntax)
      else
        let neg = (hd s = CHR ''-'');
            s1 = (if hd s = CHR ''+'' \<or> hd s = CHR ''-'' then tl s else s)
        in case ParseUint s1 of
             (un, Some ErrSyntax) \<Rightarrow> (0, Some ErrSyntax)
           | (un, _) \<Rightarrow>
               if \<not> neg \<and> 2 ^ 63 \<le> un then (2 ^ 63 - 1, Some ErrRange)
               else if neg \<and> 2 ^ 63 < un then (- (2 ^ 63), Some ErrRange)
               else (if neg then - int un else int un, None))"

definition Atoi :: "string \<Rightarrow> int \<times> num_error option" where
  "Atoi s = ParseInt s"

text \<open>
  \<^verbatim>\<open>strconv.ParseFloat(s, 64)\<close> is not modelled: the parsers take it as the parameter
  \<open>ParseFloat\<close>, which returns the value and the error of the conversion, over an open
  type \<open>'f\<close> of float values. The function below is \<^verbatim>\<open>ParseFloat\<close> on the strings
  that are a decimal integer, and reports a syntax error on the others; it serves to run
  the parsers on examples.
\<close>

definition ParseFloat_int :: "string \<Rightarrow> real \<times> num_error option" where
  "ParseFloat_int s =
     (case ParseInt s of (n, None) \<Rightarrow> (real_of_int n, None) | (n, Some e) \<Rightarrow> (0, Some ErrSyntax))"

section \<open>The GFX usage string\<close>

text \<open>
  \<^verbatim>\<open>fmt.Sprintf("%.1f%%", float64(gfxTime)/1e9*100)\<close> is evaluated where
  \<^verbatim>\<open>gfxTime > 0\<close>, so every float of the expression is positive, finite and normal. Such a
  float is a pair \<open>(m, e)\<close> standing for \<open>m * 2 ^ e\<close>, and every operation rounds the
  exact result to 53 significant bits, ties to even, as IEEE 754 does.
\<close>

fun bits :: "nat \<Rightarrow> nat" where
  "bits n = (if n = 0 then 0 else Suc (bits (n div 2)))"

declare bits.simps [simp del]

text \<open>The float nearest to the positive fraction \<open>a / b\<close>.\<close>

definition round64 :: "nat \<Rightarrow> nat \<Rightarrow> nat \<times> int" where
  "round64 a b =
     (let e0 = int (bits a) - int (bits b) - 53;
          q0 = (a * 2 ^ nat (- e0)) div (b * 2 ^ nat e0);
          e = (if 2 ^ 53 \<le> q0 then e0 + 1 else e0);
          num = a * 2 ^ nat (- e);
          den = b * 2 ^ nat e;
          m = num div den;
          r = num mod den
      in (if den < 2 * r \<or> (den = 2 * r \<and> odd m) then m + 1 else m, e))"

definition float64_of_int :: "int \<Rightarrow> nat \<times> int" where
  "float64_of_int x = round64 (nat x) 1"

fun float64_div :: "nat \<times> int \<Rightarrow> nat \<times> int \<Rightarrow> nat \<times> int" where
  "float64_div (m1, e1) (m2, e2) =
     round64 (m1 * 2 ^ nat e1 * 2 ^ nat (- e2)) (m2 * 2 ^ nat e2 * 2 ^ nat (- e1))"

fun float64_mul :: "nat \<times> int \<Rightarrow> nat \<times> int \<Rightarrow> nat \<times> int" where
  "float64_mul (m1, e1) (m2, e2) =
     round64 (m1 * m2 * 2 ^ nat (e1 + e2)) (2 ^ nat (- (e1 + e2)))"

fun decimal :: "nat \<Rightarrow> string" where
  "decimal n =
     (if n < 10 then [''0123456789'' ! n]
      else decimal (n div 10) @ [''0123456789'' ! (n mod 10)])"

declare decimal.simps [simp del]

text \<open>
  \<^verbatim>\<open>%.1f\<close> prints the decimal with one digit after the point that is nearest to the
  exact value of the float, ties to even.
\<close>

fun Sprintf_1f_percent :: "nat \<times> int \<Rightarrow> string" where
  "Sprintf_1f_percent (m, e) =
     (let num = 10 * m * 2 ^ nat e;
          den = 2 ^ nat (- e);
          n = num div den;
          r = num mod den;
          t = (if den < 2 * r \<or> (den = 2 * r \<and> odd n) then n + 1 else n)
      in decimal (t div 10) @ ''.'' @ decimal (t mod 10) @ ''%'')"

definition gfx_percent :: "int \<Rightarrow> string" where
  "gfx_percent gfxTime =
     Sprintf_1f_percent
       (float64_mul (float64_div (float64_of_int gfxTime) (1000000000, 0)) (100, 0))"

section \<open>The records and the parsers\<close>

text \<open>
  What a parser hands to its caller besides a result: a run-time panic, or one of the
  errors the functions return.
\<close>

datatype fault =
    Panic panic
  | ExecError
  | CsvHeaderError
  | CsvRecordError

record 'f GPUMetrics =
  ID :: int
  Power :: 'f
  GPUTemp :: 'f
  MemTemp :: 'f
  GFXUtil :: 'f
  GFXClock :: 'f
  MemUtil :: 'f
  MemClock :: 'f
  VRAMUsed :: 'f
  VRAMTotal :: 'f

record 'f ProcessInfo =
  GPU :: int
  Name :: string
  PID :: string
  GTTMem :: 'f
  CPUMem :: 'f
  VRAMMem :: 'f
  TotalMem :: 'f
  GFXUsage :: string

text \<open>
  The parsers read the output of the command through a \<^verbatim>\<open>bufio.Scanner\<close>. The model
  takes the lines the scanner yields (the output cut at line ends, without the line end),
  or \<open>None\<close> when running the command failed.
\<close>

subsection \<open>\<^verbatim>\<open>getGPUMetrics\<close>\<close>

definition metrics_of_fields :: "(string \<Rightarrow> 'f \<times> num_error option) \<Rightarrow> string list \<Rightarrow> 'f GPUMetrics"
  where
  "metrics_of_fields ParseFloat flds =
     \<lparr> ID = fst (Atoi (flds ! 0)),
       Power = fst (ParseFloat (flds ! 1)),
       GPUTemp = fst (ParseFloat (flds ! 2)),
       MemTemp = fst (ParseFloat (flds ! 3)),
       GFXUtil = fst (ParseFloat (flds ! 4)),
       GFXClock = fst (ParseFloat (flds ! 5)),
       MemUtil = fst (ParseFloat (flds ! 6)),
       MemClock = fst (ParseFloat (flds ! 7)),
       VRAMUsed = fst (ParseFloat (flds ! 15)),
       VRAMTotal = fst (ParseFloat (flds ! 16)) \<rparr>"

text \<open>The loop over the lines after the header; \<open>metrics\<close> is the slice built so far.\<close>

fun metrics_loop ::
  "(string \<Rightarrow> 'f \<times> num_error option) \<Rightarrow> 'f GPUMetrics list \<Rightarrow> string list \<Rightarrow> 'f GPUMetrics list"
  where
  "metrics_loop ParseFloat metrics [] = metrics"
| "metrics_loop ParseFloat metrics (line # rest) =
     (let flds = Split line CHR '',''
      in if length flds < 17 then metrics_loop ParseFloat metrics rest
         else metrics_loop ParseFloat (metrics @ [metrics_of_fields ParseFloat flds]) rest)"

definition getGPUMetrics ::
  "(string \<Rightarrow> 'f \<times> num_error option) \<Rightarrow> string list option \<Rightarrow> fault + 'f GPUMetrics list"
  where
  "getGPUMetrics ParseFloat output =
     (case output of
        None \<Rightarrow> Inl ExecError
      | Some lines \<Rightarrow> Inr (metrics_loop ParseFloat [] (drop 1 lines)))"

text \<open>What one line after the header adds to the result of \<^verbatim>\<open>getGPUMetrics\<close>.\<close>

definition row_metrics :: "(string \<Rightarrow> 'f \<times> num_error option) \<Rightarrow> string \<Rightarrow> 'f GPUMetrics list" where
  "row_metrics ParseFloat line =
     (if length (Split line CHR '','') < 17 then []
      else [metrics_of_fields ParseFloat (Split line CHR '','')])"

text \<open>
  The nine float fields of a record, and the nine texts of the row they are parsed from.
\<close>

definition float_fields :: "'f GPUMetrics \<Rightarrow> 'f list" where
  "float_fields m =
     [Power m, GPUTemp m, MemTemp m, GFXUtil m, GFXClock m, MemUtil m, MemClock m,
      VRAMUsed m, VRAMTotal m]"

definition float_texts :: "string list \<Rightarrow> string list" where
  "float_texts flds =
     [flds ! 1, flds ! 2, flds ! 3, flds ! 4, flds ! 5, flds ! 6, flds ! 7, flds ! 15, flds ! 16]"

subsection \<open>\<^verbatim>\<open>getProcessInfo\<close>, labeled blocks (\<^verbatim>\<open>src/gpu_metrics.go\<close>)\<close>

record 'f scan_state =
  processes :: "'f ProcessInfo list"
  currentGPU :: int
  currentProcess :: "'f ProcessInfo"

definition zero_ProcessInfo :: "('f::zero) ProcessInfo" where
  "zero_ProcessInfo =
     \<lparr> GPU = 0, Name = [], PID = [], GTTMem = 0, CPUMem = 0, VRAMMem = 0, TotalMem = 0,
       GFXUsage = [] \<rparr>"

text \<open>\<^verbatim>\<open>strings.Split(line, ":")[1]\<close>, which panics when the line has no colon.\<close>

definition after_colon :: "string \<Rightarrow> fault + string" where
  "after_colon line =
     (case Split line CHR '':'' of
        _ # f # _ \<Rightarrow> Inr f
      | _ \<Rightarrow> Inl (Panic IndexOutOfRange))"

definition mem_value :: "(string \<Rightarrow> 'f \<times> num_error option) \<Rightarrow> string \<Rightarrow> 'f" where
  "mem_value ParseFloat f = fst (ParseFloat (TrimSuffix (TrimSpace f) '' MB''))"

definition gfx_usage :: "string \<Rightarrow> string" where
  "gfx_usage f =
     (let gfxStr = TrimSuffix (TrimSpace f) '' ns''
      in case ParseInt gfxStr of
           (gfxTime, None) \<Rightarrow> if 0 < gfxTime then gfx_percent gfxTime else ''0.0%''
         | (gfxTime, Some err) \<Rightarrow> ''0.0%'')"

text \<open>One turn of the loop: the \<^verbatim>\<open>if\<close> chain on the line, in the order of the source.\<close>

definition scan_line ::
  "(string \<Rightarrow> ('f::zero) \<times> num_error option) \<Rightarrow> 'f scan_state \<Rightarrow> string \<Rightarrow>
   fault + 'f scan_state"
  where
  "scan_line ParseFloat st line =
     (if HasPrefix line ''GPU:'' then
        (let flds = Fields line
         in if length flds < 2 then Inl (Panic IndexOutOfRange)
            else Inr (st \<lparr> currentGPU := fst (Atoi (flds ! 1)) \<rparr>))
      else if Contains line ''NAME:'' then
        (let st1 = (if Name (currentProcess st) \<noteq> []
                    then st \<lparr> processes := processes st @ [currentProcess st] \<rparr> else st);
             st2 = st1 \<lparr> currentProcess := zero_ProcessInfo \<lparr> GPU := currentGPU st1 \<rparr> \<rparr>
         in case after_colon line of
              Inl e \<Rightarrow> Inl e
            | Inr f \<Rightarrow> Inr (st2 \<lparr> currentProcess := (currentProcess st2) \<lparr> Name := TrimSpace f \<rparr> \<rparr>))
      else if Contains line ''PID:'' then
        (case after_colon line of
           Inl e \<Rightarrow> Inl e
         | Inr f \<Rightarrow> Inr (st \<lparr> currentProcess := (currentProcess st) \<lparr> PID := TrimSpace f \<rparr> \<rparr>))
      else if Contains line ''GTT_MEM:'' then
        (case after_colon line of
           Inl e \<Rightarrow> Inl e
         | Inr f \<Rightarrow>
             Inr (st \<lparr> currentProcess := (currentProcess st) \<lparr> GTTMem := mem_value ParseFloat f \<rparr> \<rparr>))
      else if Contains line ''CPU_MEM:'' then
        (case after_colon line of
           Inl e \<Rightarrow> Inl e
         | Inr f \<Rightarrow>
             Inr (st \<lparr> currentProcess := (currentProcess st) \<lparr> CPUMem := mem_value ParseFloat f \<rparr> \<rparr>))
      else if Contains line ''VRAM_MEM:'' then
        (case after_colon line of
           Inl e \<Rightarrow> Inl e
         | Inr f \<Rightarrow>
             Inr (st \<lparr> currentProcess := (currentProcess st) \<lparr> VRAMMem := mem_value ParseFloat f \<rparr> \<rparr>))
      else if Contains line ''MEM_USAGE:'' then
        (case after_colon line of
           Inl e \<Rightarrow> Inl e
         | Inr f \<Rightarrow>
             Inr (st \<lparr> currentProcess := (currentProcess st) \<lparr> TotalMem := mem_value ParseFloat f \<rparr> \<rparr>))
      else if Contains line ''GFX:'' then
        (case after_colon line of
           Inl e \<Rightarrow> Inl e
         | Inr f \<Rightarrow> Inr (st \<lparr> currentProcess := (currentProcess st) \<lparr> GFXUsage := gfx_usage f \<rparr> \<rparr>))
      else Inr st)"

fun scan_lines ::
  "(string \<Rightarrow> ('f::zero) \<times> num_error option) \<Rightarrow> 'f scan_state \<Rightarrow> string list \<Rightarrow>
   fault + 'f scan_state"
  where
  "scan_lines ParseFloat st [] = Inr st"
| "scan_lines ParseFloat st (line # rest) =
     (case scan_line ParseFloat st line of
        Inl e \<Rightarrow> Inl e
      | Inr st' \<Rightarrow> scan_lines ParseFloat st' rest)"

definition getProcessInfo ::
  "(string \<Rightarrow> ('f::zero) \<times> num_error option) \<Rightarrow> string list option \<Rightarrow>
   fault + 'f ProcessInfo list"
  where
  "getProcessInfo ParseFloat output =
     (case output of
        None \<Rightarrow> Inl ExecError
      | Some lines \<Rightarrow>
          (case scan_lines ParseFloat
                  \<lparr> processes = [], currentGPU = - 1, currentProcess = zero_ProcessInfo \<rparr> lines of
             Inl e \<Rightarrow> Inl e
           | Inr st \<Rightarrow>
               Inr (if Name (currentProcess st) \<noteq> []
                    then processes st @ [currentProcess st] else processes st)))"

text \<open>
  The notions the claims about this parser use. A line takes the name branch when it
  holds the name marker and does not begin with the device marker; the name the branch
  stores is the trimmed text between the first and the second colon. A device line
  without a second field makes the parser panic.
\<close>

definition is_name_line :: "string \<Rightarrow> bool" where
  "is_name_line line \<longleftrightarrow> \<not> HasPrefix line ''GPU:'' \<and> Contains line ''NAME:''"

definition extracted_name :: "string \<Rightarrow> string" where
  "extracted_name line = (case after_colon line of Inl e \<Rightarrow> [] | Inr f \<Rightarrow> TrimSpace f)"

definition device_line_ok :: "string \<Rightarrow> bool" where
  "device_line_ok line \<longleftrightarrow> (HasPrefix line ''GPU:'' \<longrightarrow> 2 \<le> length (Fields line))"

definition marked_names :: "string list \<Rightarrow> nat" where
  "marked_names lines =
     length (filter (\<lambda>line. Contains line ''NAME:'' \<and> extracted_name line \<noteq> []) lines)"

definition started_names :: "string list \<Rightarrow> nat" where
  "started_names lines =
     length (filter (\<lambda>line. is_name_line line \<and> extracted_name line \<noteq> []) lines)"

text \<open>
  The slice the function returns from the state the loop ends in: the records appended
  so far, and the record in progress when it has a name.
\<close>

definition flush :: "'f scan_state \<Rightarrow> 'f ProcessInfo list" where
  "flush st = (if Name (currentProcess st) \<noteq> [] then processes st @ [currentProcess st]
               else processes st)"

subsection \<open>\<^verbatim>\<open>getProcessInfo\<close>, delimited rows (\<^verbatim>\<open>src/unnamed/part_001\<close>)\<close>

text \<open>
  This variant reads the output with \<^verbatim>\<open>encoding/csv\<close>. The model starts from the
  records the reader cuts the text into: each is a list of fields, or a record the
  reader cannot parse (a misplaced quote). What \<^verbatim>\<open>Reader.Read\<close> adds is modelled: with
  \<^verbatim>\<open>FieldsPerRecord\<close> left at 0 the first record sets the number of fields, and a later
  record with another number of fields is returned with the error \<^verbatim>\<open>ErrFieldCount\<close>.
\<close>

datatype csv_record = Record "string list" | Unparsable

datatype csv_error = EOF | ErrFieldCount | ErrQuote

record Reader =
  FieldsPerRecord :: int
  pending :: "csv_record list"

definition NewReader :: "csv_record list \<Rightarrow> Reader" where
  "NewReader recs = \<lparr> FieldsPerRecord = 0, pending = recs \<rparr>"

definition Read :: "Reader \<Rightarrow> (csv_error + string list) \<times> Reader" where
  "Read r =
     (case pending r of
        [] \<Rightarrow> (Inl EOF, r)
      | Unparsable # rest \<Rightarrow> (Inl ErrQuote, r \<lparr> pending := rest \<rparr>)
      | Record flds # rest \<Rightarrow>
          if 0 < FieldsPerRecord r then
            (if int (length flds) \<noteq> FieldsPerRecord r
             then (Inl ErrFieldCount, r \<lparr> pending := rest \<rparr>)
             else (Inr flds, r \<lparr> pending := rest \<rparr>))
          else if FieldsPerRecord r = 0 then
            (Inr flds, r \<lparr> FieldsPerRecord := int (length flds), pending := rest \<rparr>)
          else (Inr flds, r \<lparr> pending := rest \<rparr>))"

text \<open>
  The body of the loop for one record: \<open>Inr None\<close> is \<^verbatim>\<open>continue\<close>. The first index
  expression past the end of the record panics; \<^verbatim>\<open>record[1]\<close> comes first, and the
  largest index used after the device index has been parsed is 8.
\<close>

definition process_of_record ::
  "(string \<Rightarrow> ('f::{inverse,numeral}) \<times> num_error option) \<Rightarrow> string list \<Rightarrow>
   fault + 'f ProcessInfo option"
  where
  "process_of_record ParseFloat rec =
     (if length rec < 2 then Inl (Panic IndexOutOfRange)
      else if Contains (rec ! 1) ''No running processes detected'' then Inr None
      else case Atoi (rec ! 0) of
             (gpuID, Some err) \<Rightarrow> Inr None
           | (gpuID, None) \<Rightarrow>
               if length rec < 9 then Inl (Panic IndexOutOfRange)
               else
                 let vramMem = fst (ParseFloat (rec ! 2));
                     cpuMem = fst (ParseFloat (rec ! 5));
                     gttMem = fst (ParseFloat (rec ! 7));
                     totalMem = fst (ParseFloat (rec ! 8))
                 in Inr (Some \<lparr> GPU = gpuID, Name = rec ! 3, PID = rec ! 4,
                                 GTTMem = gttMem / 1024 / 1024,
                                 CPUMem = cpuMem / 1024 / 1024,
                                 VRAMMem = vramMem / 1024 / 1024,
                                 TotalMem = totalMem / 1024 / 1024,
                                 GFXUsage = rec ! 6 @ ''%'' \<rparr>))"

function csv_loop ::
  "(string \<Rightarrow> ('f::{inverse,numeral}) \<times> num_error option) \<Rightarrow> Reader \<Rightarrow> 'f ProcessInfo list \<Rightarrow>
   fault + 'f ProcessInfo list"
  where
  "csv_loop ParseFloat reader procs =
     (case Read reader of
        (Inl EOF, reader') \<Rightarrow> Inr procs
      | (Inl err, reader') \<Rightarrow> Inl CsvRecordError
      | (Inr rec, reader') \<Rightarrow>
          (case process_of_record ParseFloat rec of
             Inl e \<Rightarrow> Inl e
           | Inr None \<Rightarrow> csv_loop ParseFloat reader' procs
           | Inr (Some process) \<Rightarrow> csv_loop ParseFloat reader' (procs @ [process])))"
  by pat_completeness auto
termination
  by (relation "measure (\<lambda>(pf, r, procs). length (pending r))")
     (auto simp: Read_def split: list.splits csv_record.splits if_splits)

declare csv_loop.simps [simp del]

definition getProcessInfo_csv ::
  "(string \<Rightarrow> ('f::{inverse,numeral}) \<times> num_error option) \<Rightarrow> csv_record list option \<Rightarrow>
   fault + 'f ProcessInfo list"
  where
  "getProcessInfo_csv ParseFloat output =
     (case output of
        None \<Rightarrow> Inl ExecError
      | Some recs \<Rightarrow>
          (case Read (NewReader recs) of
             (Inl err, reader) \<Rightarrow> Inl CsvHeaderError
           | (Inr header, reader) \<Rightarrow> csv_loop ParseFloat reader []))"

text \<open>
  A record the reader accepts after a header of \<open>n\<close> fields, and what an accepted
  record adds to the result.
\<close>

definition accepted :: "nat \<Rightarrow> csv_record \<Rightarrow> bool" where
  "accepted n r = (case r of Record flds \<Rightarrow> length flds = n | Unparsable \<Rightarrow> False)"

definition row_processes ::
  "(string \<Rightarrow> ('f::{inverse,numeral}) \<times> num_error option) \<Rightarrow> csv_record \<Rightarrow> 'f ProcessInfo list"
  where
  "row_processes ParseFloat r =
     (case r of
        Unparsable \<Rightarrow> []
      | Record flds \<Rightarrow>
          (case process_of_record ParseFloat flds of Inr (Some p) \<Rightarrow> [p] | _ \<Rightarrow> []))"

section \<open>The process table: sort state and key events\<close>

text \<open>
  The globals \<^verbatim>\<open>selectedColumn\<close>, \<^verbatim>\<open>sortReverse\<close> and the list widget
  \<^verbatim>\<open>processList\<close>, of which the program uses the rows, the selected row and the title.
\<close>

record List_widget =
  Rows :: "string list"
  SelectedRow :: int
  Title :: string

record ui_state =
  processList :: List_widget
  selectedColumn :: int
  sortReverse :: bool

definition columns :: "string list" where
  "columns = [''GPU'', ''Name'', ''PID'', ''Usage'']"

text \<open>
  The title, \<^verbatim>\<open>fmt.Sprintf("Process List (Sort: %s%s)", columns[selectedColumn], arrow)\<close>;
  the arrows are the UTF-8 bytes of a space and U+2193 or U+2191. The index expression
  panics outside \<open>columns\<close>.
\<close>

definition sort_title :: "int \<Rightarrow> bool \<Rightarrow> panic + string" where
  "sort_title col reversed =
     (if col < 0 \<or> int (length columns) \<le> col then Inl IndexOutOfRange
      else Inr (''Process List (Sort: '' @ columns ! nat col @
                (if reversed then [CHR '' '', CHR 0xE2, CHR 0x86, CHR 0x93]
                 else [CHR '' '', CHR 0xE2, CHR 0x86, CHR 0x91]) @ '')''))"

definition handleProcessListEvents :: "string \<Rightarrow> ui_state \<Rightarrow> panic + ui_state" where
  "handleProcessListEvents e st =
     (if e = ''<Up>'' then
        (if 0 < SelectedRow (processList st)
         then Inr (st \<lparr> processList := (processList st)
                          \<lparr> SelectedRow := SelectedRow (processList st) - 1 \<rparr> \<rparr>)
         else Inr st)
      else if e = ''<Down>'' then
        (if SelectedRow (processList st) < int (length (Rows (processList st))) - 1
         then Inr (st \<lparr> processList := (processList st)
                          \<lparr> SelectedRow := SelectedRow (processList st) + 1 \<rparr> \<rparr>)
         else Inr st)
      else if e = ''<Left>'' then
        (if 0 < selectedColumn st then
           (case sort_title (selectedColumn st - 1) (sortReverse st) of
              Inl p \<Rightarrow> Inl p
            | Inr t \<Rightarrow> Inr (st \<lparr> processList := (processList st) \<lparr> Title := t \<rparr>,
                                 selectedColumn := selectedColumn st - 1 \<rparr>))
         else Inr st)
      else if e = ''<Right>'' then
        (if selectedColumn st < int (length columns) - 1 then
           (case sort_title (selectedColumn st + 1) (sortReverse st) of
              Inl p \<Rightarrow> Inl p
            | Inr t \<Rightarrow> Inr (st \<lparr> processList := (processList st) \<lparr> Title := t \<rparr>,
                                 selectedColumn := selectedColumn st + 1 \<rparr>))
         else Inr st)
      else if e = ''<Enter>'' \<or> e = ''<Space>'' then
        Inr (st \<lparr> sortReverse := \<not> sortReverse st \<rparr>)
      else Inr st)"

text \<open>The events of a session, handled in turn; a panic ends the run.\<close>

fun handle_events :: "string list \<Rightarrow> ui_state \<Rightarrow> panic + ui_state" where
  "handle_events [] st = Inr st"
| "handle_events (e # es) st =
     (case handleProcessListEvents e st of
        Inl p \<Rightarrow> Inl p
      | Inr st' \<Rightarrow> handle_events es st')"

text \<open>
  The state when \<^verbatim>\<open>main\<close> enters its loop: the globals have their zero values, the
  widget has no rows yet, and the title has been set from them.
\<close>

definition initial_state :: ui_state where
  "initial_state =
     \<lparr> processList =
         \<lparr> Rows = [], SelectedRow = 0,
           Title = ''Process List (Sort: GPU'' @ [CHR '' '', CHR 0xE2, CHR 0x86, CHR 0x91] @ '')'' \<rparr>,
       selectedColumn = 0, sortReverse = False \<rparr>"

section \<open>History buffer: proofs\<close>

lemma go_rem_nonneg: "0 \<le> a \<Longrightarrow> 0 < b \<Longrightarrow> go_rem a b = a mod b"
  by (cases "a = 0") (simp_all add: go_rem_def)

lemma newGPUHistory_ok:
  "0 < n \<Longrightarrow> \<exists>gh. newGPUHistory n = Inr gh \<and> hist_ok gh \<and> chrono gh = replicate (nat n) 0"
  by (simp add: newGPUHistory_def hist_ok_def chrono_def)

lemma hist_ok_nat:
  assumes "hist_ok gh"
  obtains i n where "h_index gh = int i" "h_maxLen gh = int n" "i < n"
    "length (h_values gh) = n"
proof -
  from assms have "h_index gh = int (nat (h_index gh))" "h_maxLen gh = int (nat (h_maxLen gh))"
    "nat (h_index gh) < nat (h_maxLen gh)" "length (h_values gh) = nat (h_maxLen gh)"
    by (auto simp: hist_ok_def)
  then show thesis by (rule that)
qed

lemma getData_chrono:
  assumes "hist_ok gh"
  shows "getData gh = Inr (chrono gh, gh)"
proof -
  from assms obtain i n where ix: "h_index gh = int i" and mx: "h_maxLen gh = int n"
    and i: "i < n" and len: "length (h_values gh) = n"
    by (rule hist_ok_nat)
  let ?vs = "h_values gh"
  show ?thesis
  proof (cases "i = 0")
    case True
    then show ?thesis by (simp add: getData_def chrono_def ix)
  next
    case False
    have k: "nat (int n - int i) = n - i"
      by simp
    have c1: "go_copy (replicate n 0) (drop i ?vs) = drop i ?vs @ replicate i 0"
      using len i by (simp add: go_copy_def)
    have c2: "go_copy (replicate i 0) (take i ?vs) = take i ?vs"
      using len i by (simp add: go_copy_def)
    have t: "take (n - i) (drop i ?vs @ replicate i 0) = drop i ?vs"
      using len i by simp
    have d: "drop (n - i) (drop i ?vs @ replicate i 0) = replicate i 0"
      using len i by simp
    have "getData gh =
            Inr (take (n - i) (drop i ?vs @ replicate i 0)
                 @ go_copy (drop (n - i) (drop i ?vs @ replicate i 0)) (take i ?vs), gh)"
      using False i len by (simp add: getData_def Let_def ix mx c1 k del: take_append drop_append)
    then show ?thesis
      by (simp only: t d c2 chrono_def ix nat_int)
  qed
qed

lemma add_chrono:
  assumes "hist_ok gh"
  shows "\<exists>gh'. add gh v = Inr gh' \<and> hist_ok gh' \<and> h_maxLen gh' = h_maxLen gh \<and>
          chrono gh' = tl (chrono gh) @ [v]"
proof -
  from assms obtain i n where ix: "h_index gh = int i" and mx: "h_maxLen gh = int n"
    and i: "i < n" and len: "length (h_values gh) = n"
    by (rule hist_ok_nat)
  define j where "j = Suc i mod n"
  let ?vs = "h_values gh"
  let ?gh' = "gh \<lparr> h_values := ?vs[i := v], h_index := int j \<rparr>"
  have rem: "go_rem (int i + 1) (int n) = int j"
    using i by (simp add: go_rem_nonneg zmod_int add.commute j_def)
  have j: "j < n"
    using i by (simp add: j_def)
  have eq: "add gh v = Inr ?gh'"
    using i len by (simp add: add_def ix mx rem)
  have ok: "hist_ok ?gh'"
    using j len by (simp add: hist_ok_def mx)
  have ne: "drop i ?vs \<noteq> []"
    using len i by simp
  have c: "chrono ?gh' = drop j (?vs[i := v]) @ take j (?vs[i := v])"
    by (simp add: chrono_def)
  have c0: "chrono gh = drop i ?vs @ take i ?vs"
    by (simp add: chrono_def ix)
  have ch: "chrono ?gh' = tl (chrono gh) @ [v]"
  proof (cases "Suc i < n")
    case True
    have "take (Suc i) (?vs[i := v]) = take i ?vs @ [v]"
      using len i by (simp add: take_Suc_conv_app_nth)
    moreover have "tl (drop i ?vs) = drop (Suc i) ?vs"
      by (simp add: drop_Suc tl_drop)
    moreover have "j = Suc i"
      using True by (simp add: j_def)
    ultimately show ?thesis
      unfolding c c0 using ne by simp
  next
    case False
    with i have si: "Suc i = n" by simp
    have "drop i ?vs = [?vs ! i]"
      using len si i by (metis Cons_nth_drop_Suc drop_all le_refl)
    moreover have "?vs[i := v] = take i ?vs @ [v]"
      using len si by (metis lessI take_Suc_conv_app_nth take_all le_refl length_list_update
          nth_list_update_eq take_update_cancel)
    moreover have "j = 0"
      using si by (simp add: j_def)
    ultimately show ?thesis
      unfolding c c0 by simp
  qed
  from eq ok ch show ?thesis by (auto simp: mx)
qed

lemma length_chrono: "hist_ok gh \<Longrightarrow> length (chrono gh) = nat (h_maxLen gh)"
  by (auto simp: hist_ok_def chrono_def)

lemma add_all_chrono:
  "hist_ok gh \<Longrightarrow>
   \<exists>gh'. add_all gh xs = Inr gh' \<and> hist_ok gh' \<and> h_maxLen gh' = h_maxLen gh \<and>
         chrono gh' = drop (length xs) (chrono gh @ xs)"
proof (induction xs arbitrary: gh)
  case Nil
  then show ?case by simp
next
  case (Cons v xs)
  from add_chrono [OF Cons.prems, of v] obtain g1 where
    g1: "add gh v = Inr g1" "hist_ok g1" "h_maxLen g1 = h_maxLen gh"
      "chrono g1 = tl (chrono gh) @ [v]"
    by blast
  from Cons.IH [OF g1(2)] obtain g2 where
    g2: "add_all g1 xs = Inr g2" "hist_ok g2" "h_maxLen g2 = h_maxLen g1"
      "chrono g2 = drop (length xs) (chrono g1 @ xs)"
    by blast
  from Cons.prems have "chrono gh \<noteq> []"
    using length_chrono [of gh] by (auto simp: hist_ok_def)
  then obtain c cs where c: "chrono gh = c # cs"
    by (cases "chrono gh") auto
  have "chrono g2 = drop (length (v # xs)) (chrono gh @ v # xs)"
    by (simp add: g2(4) g1(4) c)
  with g1 g2 show ?case by simp
qed

lemma fresh_then_add_all:
  assumes "0 < n"
  shows "\<exists>gh0 gh. newGPUHistory n = Inr gh0 \<and> add_all gh0 xs = Inr gh \<and> hist_ok gh \<and>
           h_maxLen gh = n \<and> getData gh = Inr (drop (length xs) (replicate (nat n) 0 @ xs), gh)"
proof -
  from newGPUHistory_ok [OF assms] obtain gh0 :: "'a GPUHistory" where
    g0: "newGPUHistory n = Inr gh0" "hist_ok gh0" "chrono gh0 = replicate (nat n) 0"
    by blast
  have m0: "h_maxLen gh0 = n"
    using g0(1) assms by (auto simp: newGPUHistory_def)
  from add_all_chrono [OF g0(2), of xs] obtain gh where
    g: "add_all gh0 xs = Inr gh" "hist_ok gh" "h_maxLen gh = h_maxLen gh0"
      "chrono gh = drop (length xs) (chrono gh0 @ xs)"
    by blast
  from g0 g m0 getData_chrono [OF g(2)] show ?thesis by simp
qed

lemma resizeHistory_chrono:
  assumes "hist_ok old" and "0 < m"
  shows "\<exists>new. resizeHistory old m = Inr new \<and> hist_ok new \<and> h_maxLen new = m \<and>
           getData new =
             Inr (drop (length (chrono old)) (replicate (nat m) 0 @ chrono old), new)"
proof -
  from fresh_then_add_all [OF assms(2), of "chrono old"] obtain gh0 new :: "'a GPUHistory" where
    n: "newGPUHistory m = Inr gh0" "add_all gh0 (chrono old) = Inr new" "hist_ok new"
      "h_maxLen new = m"
      "getData new = Inr (drop (length (chrono old)) (replicate (nat m) 0 @ chrono old), new)"
    by blast
  have "resizeHistory old m = Inr new"
    by (simp add: resizeHistory_def n(1,2) getData_chrono [OF assms(1)])
  with n show ?thesis by simp
qed

section \<open>History buffer: the claims\<close>

text \<open>
  Claim C2. A new buffer of capacity \<open>n \<ge> 1\<close> that has had \<open>n\<close> values appended
  linearizes to exactly those values in the order pushed; after \<open>k \<le> n\<close> further
  values it linearizes to the last \<open>n\<close> of the \<open>n + k\<close> values, so exactly the oldest
  \<open>k\<close> are gone. \<^verbatim>\<open>getData\<close> hands the buffer back as it received it, so a second call
  returns the same series.
\<close>

theorem history_round_trip:
  fixes xs ys :: "('a::zero) list"
  assumes "1 \<le> n" and "length xs = nat n" and "length ys \<le> nat n"
  shows "\<exists>gh0 gh1 gh2.
           newGPUHistory n = Inr gh0 \<and>
           add_all gh0 xs = Inr gh1 \<and> getData gh1 = Inr (xs, gh1) \<and>
           add_all gh1 ys = Inr gh2 \<and> getData gh2 = Inr (drop (length ys) (xs @ ys), gh2)"
proof -
  from assms(1) have n: "0 < n" by simp
  from fresh_then_add_all [OF n, of xs] obtain gh0 gh1 :: "'a GPUHistory" where
    g1: "newGPUHistory n = Inr gh0" "add_all gh0 xs = Inr gh1" "hist_ok gh1"
      "getData gh1 = Inr (drop (length xs) (replicate (nat n) 0 @ xs), gh1)"
    by blast
  have d1: "getData gh1 = Inr (xs, gh1)"
    using g1(4) assms(2) by simp
  then have c1: "chrono gh1 = xs"
    using getData_chrono [OF g1(3)] by simp
  from add_all_chrono [OF g1(3), of ys] obtain gh2 where
    g2: "add_all gh1 ys = Inr gh2" "hist_ok gh2" "chrono gh2 = drop (length ys) (chrono gh1 @ ys)"
    by blast
  have "getData gh2 = Inr (drop (length ys) (xs @ ys), gh2)"
    using getData_chrono [OF g2(2)] g2(3) c1 by simp
  with g1 d1 g2 show ?thesis by blast
qed

theorem history_round_trip_witness:
  "\<exists>gh0 gh1 gh2.
     newGPUHistory 3 = Inr gh0 \<and>
     add_all gh0 [7, 8, 9 :: int] = Inr gh1 \<and> getData gh1 = Inr ([7, 8, 9], gh1) \<and>
     add_all gh1 [10, 11] = Inr gh2 \<and> getData gh2 = Inr ([9, 10, 11], gh2)"
  using history_round_trip [of 3 "[7, 8, 9 :: int]" "[10, 11]"] by simp

text \<open>
  Claim C1. A buffer of capacity 10 that has had 1 to 10 appended in order, rebuilt for
  capacity 5 as the resize branch does, linearizes to \<open>[6, 7, 8, 9, 10]\<close>. In general
  the rebuilt buffer of capacity \<open>m\<close> linearizes to the old series behind \<open>m\<close> zeros,
  cut to its last \<open>m\<close> values: its last \<open>min (old length) m\<close> values are the last
  \<open>min (old length) m\<close> values of the old series, in the same order.
\<close>

theorem resize_keeps_recent:
  "(\<exists>gh0 old new.
      newGPUHistory 10 = Inr gh0 \<and>
      add_all gh0 [1, 2, 3, 4, 5, 6, 7, 8, 9, 10 :: int] = Inr old \<and>
      resizeHistory old 5 = Inr new \<and> getData new = Inr ([6, 7, 8, 9, 10], new)) \<and>
   (\<forall>(old :: ('a::zero) GPUHistory) m. hist_ok old \<longrightarrow> 0 < m \<longrightarrow>
      (\<exists>oldData new r.
         getData old = Inr (oldData, old) \<and>
         resizeHistory old m = Inr new \<and> getData new = Inr (r, new) \<and>
         length r = nat m \<and>
         drop (length r - min (length oldData) (nat m)) r =
         drop (length oldData - min (length oldData) (nat m)) oldData))"
proof (intro conjI allI impI)
  from fresh_then_add_all [of 10 "[1, 2, 3, 4, 5, 6, 7, 8, 9, 10 :: int]"]
  obtain gh0 old :: "int GPUHistory" where
    o: "newGPUHistory 10 = Inr gh0" "add_all gh0 [1, 2, 3, 4, 5, 6, 7, 8, 9, 10] = Inr old"
      "hist_ok old" "getData old = Inr ([1, 2, 3, 4, 5, 6, 7, 8, 9, 10], old)"
    by auto
  have c: "chrono old = [1, 2, 3, 4, 5, 6, 7, 8, 9, 10]"
    using getData_chrono [OF o(3)] o(4) by simp
  from resizeHistory_chrono [OF o(3), of 5] obtain new where
    "resizeHistory old 5 = Inr new" "getData new = Inr ([6, 7, 8, 9, 10], new)"
    by (auto simp: c)
  with o show "\<exists>gh0 old new.
      newGPUHistory 10 = Inr gh0 \<and>
      add_all gh0 [1, 2, 3, 4, 5, 6, 7, 8, 9, 10 :: int] = Inr old \<and>
      resizeHistory old 5 = Inr new \<and> getData new = Inr ([6, 7, 8, 9, 10], new)"
    by blast
next
  fix old :: "'a GPUHistory" and m :: int
  assume ok: "hist_ok old" and m: "0 < m"
  let ?od = "chrono old"
  let ?r = "drop (length ?od) (replicate (nat m) 0 @ ?od)"
  from resizeHistory_chrono [OF ok m] obtain new where
    n: "resizeHistory old m = Inr new" "getData new = Inr (?r, new)"
    by blast
  have len: "length ?r = nat m"
    by simp
  have "drop (length ?r - min (length ?od) (nat m)) ?r =
        drop (length ?od - min (length ?od) (nat m)) ?od"
  proof (cases "length ?od \<le> nat m")
    case True
    then show ?thesis by (simp add: min_absorb1)
  next
    case False
    then show ?thesis by (simp add: min_absorb2)
  qed
  with n len getData_chrono [OF ok]
  show "\<exists>oldData new r.
         getData old = Inr (oldData, old) \<and>
         resizeHistory old m = Inr new \<and> getData new = Inr (r, new) \<and>
         length r = nat m \<and>
         drop (length r - min (length oldData) (nat m)) r =
         drop (length oldData - min (length oldData) (nat m)) oldData"
    by blast
qed

theorem resize_keeps_recent_witness:
  "hist_ok \<lparr> h_values = [4, 5, 1, 2, 3 :: int], h_maxLen = 5, h_index = 2 \<rparr> \<and> (0::int) < 3 \<and>
   (\<exists>new. resizeHistory \<lparr> h_values = [4, 5, 1, 2, 3 :: int], h_maxLen = 5, h_index = 2 \<rparr> 3 = Inr new \<and>
          getData new = Inr ([3, 4, 5], new))"
proof -
  let ?old = "\<lparr> h_values = [4, 5, 1, 2, 3 :: int], h_maxLen = 5, h_index = 2 \<rparr>"
  have ok: "hist_ok ?old"
    by (simp add: hist_ok_def)
  have od: "getData ?old = Inr ([1, 2, 3, 4, 5], ?old)"
    by (simp add: getData_def go_copy_def)
  from resize_keeps_recent [THEN conjunct2, rule_format, of ?old 3, OF ok]
  obtain oldData new r where
    f: "getData ?old = Inr (oldData, ?old)" "resizeHistory ?old 3 = Inr new"
      "getData new = Inr (r, new)" "length r = nat 3"
      "drop (length r - min (length oldData) (nat 3)) r =
       drop (length oldData - min (length oldData) (nat 3)) oldData"
    by auto
  from f(1) od have "oldData = [1, 2, 3, 4, 5]" by simp
  with f(4,5) have "r = [3, 4, 5]" by simp
  with f ok show ?thesis by auto
qed

section \<open>The labeled-block parser: proofs\<close>

lemma Contains_set: "Contains s sub \<Longrightarrow> set sub \<subseteq> set s"
proof (induction s)
  case Nil
  then show ?case by simp
next
  case (Cons c cs)
  from Cons.prems have "HasPrefix (c # cs) sub \<or> Contains cs sub" by simp
  then show ?case
  proof
    assume "HasPrefix (c # cs) sub"
    then have "sub = take (length sub) (c # cs)" by (simp add: HasPrefix_def)
    then have "set sub \<subseteq> set (c # cs)" by (metis set_take_subset)
    then show ?thesis .
  next
    assume "Contains cs sub"
    with Cons.IH show ?thesis by auto
  qed
qed

lemma Split_not_Nil: "Split s c \<noteq> []"
  by (induction s) (auto split: list.splits)

lemma Split_two: "c \<in> set s \<Longrightarrow> \<exists>a f r. Split s c = a # f # r"
proof (induction s)
  case Nil
  then show ?case by simp
next
  case (Cons x xs)
  show ?case
  proof (cases "x = c")
    case True
    obtain f r where "Split xs c = f # r"
      using Split_not_Nil [of xs c] by (cases "Split xs c") auto
    with True show ?thesis by simp
  next
    case False
    with Cons.prems have "c \<in> set xs" by simp
    from Cons.IH [OF this] obtain a f r where "Split xs c = a # f # r" by blast
    with False show ?thesis by simp
  qed
qed

lemma after_colon_Contains:
  assumes "Contains line sub" and "CHR '':'' \<in> set sub"
  shows "\<exists>f. after_colon line = Inr f"
proof -
  from Contains_set [OF assms(1)] assms(2) have "CHR '':'' \<in> set line" by auto
  from Split_two [OF this] obtain a f r where "Split line CHR '':'' = a # f # r" by blast
  then show ?thesis by (simp add: after_colon_def)
qed

lemma scan_line_device:
  "HasPrefix line ''GPU:'' \<Longrightarrow> 2 \<le> length (Fields line) \<Longrightarrow>
   scan_line pf st line = Inr (st \<lparr> currentGPU := fst (Atoi (Fields line ! 1)) \<rparr>)"
  by (simp add: scan_line_def Let_def)

lemma scan_line_name:
  assumes "is_name_line line"
  shows "scan_line pf st line =
           Inr \<lparr> processes = flush st, currentGPU = currentGPU st,
                 currentProcess = zero_ProcessInfo \<lparr> GPU := currentGPU st, Name := extracted_name line \<rparr> \<rparr>"
proof -
  from assms have c: "Contains line ''NAME:''" and p: "\<not> HasPrefix line ''GPU:''"
    by (simp_all add: is_name_line_def)
  from after_colon_Contains [OF c] obtain f where f: "after_colon line = Inr f" by auto
  show ?thesis
    using c p by (simp add: scan_line_def Let_def f extracted_name_def flush_def)
qed

lemma scan_line_other:
  assumes "\<not> HasPrefix line ''GPU:''" and "\<not> Contains line ''NAME:''"
  shows "\<exists>cp. scan_line pf st line = Inr (st \<lparr> currentProcess := cp \<rparr>) \<and>
              GPU cp = GPU (currentProcess st) \<and> Name cp = Name (currentProcess st)"
proof -
  let ?P = "\<lambda>r. \<exists>cp. r = Inr (st \<lparr> currentProcess := cp \<rparr>) \<and>
              GPU cp = GPU (currentProcess st) \<and> Name cp = Name (currentProcess st)"
  have upd: "?P (case after_colon line of Inl e \<Rightarrow> Inl e
                 | Inr f \<Rightarrow> Inr (st \<lparr> currentProcess := g f \<rparr>))"
    if "Contains line m" and "CHR '':'' \<in> set m"
      and "\<And>f. GPU (g f) = GPU (currentProcess st) \<and> Name (g f) = Name (currentProcess st)"
    for m g
  proof -
    from after_colon_Contains [OF that(1,2)] obtain f where "after_colon line = Inr f" by auto
    with that(3) show ?thesis by auto
  qed
  show ?thesis
  proof (cases "Contains line ''PID:''")
    case True
    with assms upd [OF True, of "\<lambda>f. (currentProcess st) \<lparr> PID := TrimSpace f \<rparr>"]
    show ?thesis by (simp add: scan_line_def)
  next
    case n1: False
    show ?thesis
    proof (cases "Contains line ''GTT_MEM:''")
      case True
      with assms n1 upd [OF True, of "\<lambda>f. (currentProcess st) \<lparr> GTTMem := mem_value pf f \<rparr>"]
      show ?thesis by (simp add: scan_line_def)
    next
      case n2: False
      show ?thesis
      proof (cases "Contains line ''CPU_MEM:''")
        case True
        with assms n1 n2 upd [OF True, of "\<lambda>f. (currentProcess st) \<lparr> CPUMem := mem_value pf f \<rparr>"]
        show ?thesis by (simp add: scan_line_def)
      next
        case n3: False
        show ?thesis
        proof (cases "Contains line ''VRAM_MEM:''")
          case True
          with assms n1 n2 n3
            upd [OF True, of "\<lambda>f. (currentProcess st) \<lparr> VRAMMem := mem_value pf f \<rparr>"]
          show ?thesis by (simp add: scan_line_def)
        next
          case n4: False
          show ?thesis
          proof (cases "Contains line ''MEM_USAGE:''")
            case True
            with assms n1 n2 n3 n4
              upd [OF True, of "\<lambda>f. (currentProcess st) \<lparr> TotalMem := mem_value pf f \<rparr>"]
            show ?thesis by (simp add: scan_line_def)
          next
            case n5: False
            show ?thesis
            proof (cases "Contains line ''GFX:''")
              case True
              with assms n1 n2 n3 n4 n5
                upd [OF True, of "\<lambda>f. (currentProcess st) \<lparr> GFXUsage := gfx_usage f \<rparr>"]
              show ?thesis by (simp add: scan_line_def)
            next
              case False
              have "?P (Inr st)"
                by (rule exI [of _ "currentProcess st"]) simp
              with assms n1 n2 n3 n4 n5 False show ?thesis
                by (simp add: scan_line_def)
            qed
          qed
        qed
      qed
    qed
  qed
qed


lemma scan_lines_append:
  "scan_lines pf st (xs @ ys) =
     (case scan_lines pf st xs of Inl e \<Rightarrow> Inl e | Inr st' \<Rightarrow> scan_lines pf st' ys)"
  by (induction xs arbitrary: st) (auto split: sum.splits)

lemma scan_line_step:
  assumes "device_line_ok line"
  shows "\<exists>st'. scan_line pf st line = Inr st' \<and>
           (if is_name_line line
            then processes st' = flush st \<and> currentGPU st' = currentGPU st \<and>
                 GPU (currentProcess st') = currentGPU st \<and>
                 Name (currentProcess st') = extracted_name line
            else processes st' = processes st \<and>
                 GPU (currentProcess st') = GPU (currentProcess st) \<and>
                 Name (currentProcess st') = Name (currentProcess st) \<and>
                 (\<not> HasPrefix line ''GPU:'' \<longrightarrow> currentGPU st' = currentGPU st))"
proof (cases "HasPrefix line ''GPU:''")
  case True
  with assms have "2 \<le> length (Fields line)" by (simp add: device_line_ok_def)
  from scan_line_device [OF True this, of pf st] True show ?thesis
    by (simp add: is_name_line_def)
next
  case False
  show ?thesis
  proof (cases "Contains line ''NAME:''")
    case True
    with False have n: "is_name_line line" by (simp add: is_name_line_def)
    from scan_line_name [OF n, of pf st] n show ?thesis
      by (simp add: zero_ProcessInfo_def)
  next
    case c: False
    with False have n: "\<not> is_name_line line" by (simp add: is_name_line_def)
    from scan_line_other [OF False c, of pf st] n show ?thesis by auto
  qed
qed

lemma flush_cong:
  "processes st' = processes st \<Longrightarrow> Name (currentProcess st') = Name (currentProcess st) \<Longrightarrow>
   length (flush st') = length (flush st)"
  by (simp add: flush_def)

lemma started_names_Cons:
  "started_names (l # ls) =
     (if is_name_line l \<and> extracted_name l \<noteq> [] then 1 else 0) + started_names ls"
  by (simp add: started_names_def)

lemma scan_lines_count:
  "\<forall>l\<in>set lines. device_line_ok l \<Longrightarrow>
   \<exists>st'. scan_lines pf st lines = Inr st' \<and>
         length (flush st') = length (flush st) + started_names lines \<and>
         ((\<forall>l\<in>set lines. \<not> HasPrefix l ''GPU:'') \<longrightarrow> currentGPU st' = currentGPU st)"
proof (induction lines arbitrary: st)
  case Nil
  then show ?case by (simp add: started_names_def)
next
  case (Cons l ls)
  from Cons.prems have ok: "device_line_ok l" and oks: "\<forall>l\<in>set ls. device_line_ok l"
    by simp_all
  from scan_line_step [OF ok, of pf st] obtain s1 where
    s1: "scan_line pf st l = Inr s1" and
    c: "if is_name_line l
        then processes s1 = flush st \<and> currentGPU s1 = currentGPU st \<and>
             GPU (currentProcess s1) = currentGPU st \<and>
             Name (currentProcess s1) = extracted_name l
        else processes s1 = processes st \<and>
             GPU (currentProcess s1) = GPU (currentProcess st) \<and>
             Name (currentProcess s1) = Name (currentProcess st) \<and>
             (\<not> HasPrefix l ''GPU:'' \<longrightarrow> currentGPU s1 = currentGPU st)"
    by blast
  from Cons.IH [OF oks, of s1] obtain s2 where
    s2: "scan_lines pf s1 ls = Inr s2"
      "length (flush s2) = length (flush s1) + started_names ls"
      "(\<forall>l\<in>set ls. \<not> HasPrefix l ''GPU:'') \<longrightarrow> currentGPU s2 = currentGPU s1"
    by blast
  have len: "length (flush s1) =
             length (flush st) + (if is_name_line l \<and> extracted_name l \<noteq> [] then 1 else 0)"
  proof (cases "is_name_line l")
    case True
    with c show ?thesis by (simp add: flush_def [of s1])
  next
    case False
    with c have "processes s1 = processes st"
      "Name (currentProcess s1) = Name (currentProcess st)"
      by simp_all
    from flush_cong [OF this] False show ?thesis by simp
  qed
  have gpu: "\<not> HasPrefix l ''GPU:'' \<Longrightarrow> currentGPU s1 = currentGPU st"
    using c by (cases "is_name_line l") simp_all
  from s1 s2 len gpu show ?case
    by (simp add: started_names_Cons)
qed

lemma scan_lines_prefix:
  "\<forall>l\<in>set lines. device_line_ok l \<Longrightarrow>
   \<exists>st' ext. scan_lines pf st lines = Inr st' \<and> flush st' = processes st @ ext"
proof (induction lines arbitrary: st)
  case Nil
  then show ?case by (simp add: flush_def)
next
  case (Cons l ls)
  from Cons.prems have ok: "device_line_ok l" and oks: "\<forall>l\<in>set ls. device_line_ok l"
    by simp_all
  from scan_line_step [OF ok, of pf st] obtain s1 where
    s1: "scan_line pf st l = Inr s1" and
    c: "processes s1 = flush st \<or> processes s1 = processes st"
    by (auto split: if_splits)
  from c obtain e1 where e1: "processes s1 = processes st @ e1"
    by (cases "Name (currentProcess st) = []") (auto simp: flush_def)
  from Cons.IH [OF oks, of s1] obtain s2 ext where
    "scan_lines pf s1 ls = Inr s2" "flush s2 = processes s1 @ ext"
    by blast
  with s1 e1 show ?case by simp
qed

lemma scan_lines_keeps:
  "\<forall>l\<in>set lines. device_line_ok l \<Longrightarrow> Name (currentProcess st) \<noteq> [] \<Longrightarrow>
   \<exists>st'. scan_lines pf st lines = Inr st' \<and>
         length (processes st) < length (flush st') \<and>
         GPU (flush st' ! length (processes st)) = GPU (currentProcess st) \<and>
         Name (flush st' ! length (processes st)) = Name (currentProcess st)"
proof (induction lines arbitrary: st)
  case Nil
  then show ?case by (simp add: flush_def)
next
  case (Cons l ls)
  from Cons.prems have ok: "device_line_ok l" and oks: "\<forall>l\<in>set ls. device_line_ok l"
    and nm: "Name (currentProcess st) \<noteq> []"
    by simp_all
  from scan_line_step [OF ok, of pf st] obtain s1 where
    s1: "scan_line pf st l = Inr s1" and
    c: "if is_name_line l
        then processes s1 = flush st
        else processes s1 = processes st \<and>
             GPU (currentProcess s1) = GPU (currentProcess st) \<and>
             Name (currentProcess s1) = Name (currentProcess st)"
    by (auto split: if_splits)
  show ?case
  proof (cases "is_name_line l")
    case True
    with c nm have p: "processes s1 = processes st @ [currentProcess st]"
      by (simp add: flush_def)
    from scan_lines_prefix [OF oks, of pf s1] obtain s2 ext where
      s2: "scan_lines pf s1 ls = Inr s2" "flush s2 = processes s1 @ ext"
      by blast
    from s2(2) p have "flush s2 = processes st @ currentProcess st # ext" by simp
    with s1 s2(1) show ?thesis by simp
  next
    case False
    with c have same: "processes s1 = processes st"
      "GPU (currentProcess s1) = GPU (currentProcess st)"
      "Name (currentProcess s1) = Name (currentProcess st)"
      by simp_all
    with nm have "Name (currentProcess s1) \<noteq> []" by simp
    from Cons.IH [OF oks this] obtain s2 where
      "scan_lines pf s1 ls = Inr s2"
      "length (processes s1) < length (flush s2)"
      "GPU (flush s2 ! length (processes s1)) = GPU (currentProcess s1)"
      "Name (flush s2 ! length (processes s1)) = Name (currentProcess s1)"
      by blast
    with s1 same show ?thesis by simp
  qed
qed

lemma getProcessInfo_flush:
  "getProcessInfo pf (Some lines) =
     (case scan_lines pf \<lparr> processes = [], currentGPU = - 1, currentProcess = zero_ProcessInfo \<rparr> lines of
        Inl e \<Rightarrow> Inl e | Inr st \<Rightarrow> Inr (flush st))"
  by (simp add: getProcessInfo_def flush_def split: sum.splits)

lemma bits_0: "bits 0 = 0"
  by (simp add: bits.simps)

lemma bits_pos: "0 < n \<Longrightarrow> bits n = Suc (bits (n div 2))"
  by (subst bits.simps) simp

lemma decimal_digit: "n < 10 \<Longrightarrow> decimal n = [''0123456789'' ! n]"
  by (subst decimal.simps) simp

lemma decimal_more: "10 \<le> n \<Longrightarrow> decimal n = decimal (n div 10) @ [''0123456789'' ! (n mod 10)]"
  by (subst decimal.simps) simp

text \<open>
  The floats of the expression for 500000000 ns, step by step: the conversion is
  exact, the quotient is one half and the product is fifty.
\<close>

lemma float64_of_int_5e8: "float64_of_int 500000000 = (8388608000000000, - 24)"
  by (simp add: float64_of_int_def round64_def bits_0 bits_pos)

lemma float64_div_5e8: "float64_div (8388608000000000, - 24) (1000000000, 0) = (4503599627370496, - 53)"
  by (simp add: round64_def bits_0 bits_pos)

lemma float64_mul_half: "float64_mul (4503599627370496, - 53) (100, 0) = (7036874417766400, - 47)"
  by (simp add: round64_def bits_0 bits_pos)

lemma Sprintf_fifty: "Sprintf_1f_percent (7036874417766400, - 47) = ''50.0%''"
  by (simp add: decimal_digit decimal_more)

lemma gfx_percent_5e8: "gfx_percent 500000000 = ''50.0%''"
  unfolding gfx_percent_def float64_of_int_5e8 float64_div_5e8 float64_mul_half
  by (rule Sprintf_fifty)

lemma gfx_usage_5e8: "gfx_usage '' 500000000 ns'' = ''50.0%''"
  by (simp add: gfx_usage_def TrimSpace_def isSpace_def TrimSuffix_def HasSuffix_def
      ParseInt_def ParseUint_def isDigit_def digit_val_def maxUint64_def gfx_percent_5e8)

lemma gfx_usage_examples:
  "gfx_usage '' 0 ns'' = ''0.0%''"
  "gfx_usage '' -250 ns'' = ''0.0%''"
  "gfx_usage '' 5e8 ns'' = ''0.0%''"
  by (simp_all add: gfx_usage_def TrimSpace_def isSpace_def TrimSuffix_def HasSuffix_def
      ParseInt_def ParseUint_def isDigit_def digit_val_def maxUint64_def)

lemma gfx_usage_nonpositive:
  "ParseInt (TrimSuffix (TrimSpace f) '' ns'') = (v, err) \<Longrightarrow> err \<noteq> None \<or> v \<le> 0 \<Longrightarrow>
   gfx_usage f = ''0.0%''"
  by (auto simp: gfx_usage_def Let_def split: option.splits)

lemma gfx_usage_positive:
  "ParseInt (TrimSuffix (TrimSpace f) '' ns'') = (v, None) \<Longrightarrow> 0 < v \<Longrightarrow>
   gfx_usage f = gfx_percent v"
  by (simp add: gfx_usage_def Let_def)

section \<open>The labeled-block parser: the claims\<close>

text \<open>
  Claim C3, as stated: the number of records equals the number of lines that contain
  the name marker and have a non-empty extracted name. A line that begins with the device
  marker is taken by the device branch even when it also holds the name marker, so it
  starts no record: the input below has one such line and yields no record.
\<close>

theorem name_marker_on_device_line_counterexample:
  "getProcessInfo ParseFloat_int (Some [''GPU: 0 NAME: x'']) = Inr [] \<and>
   marked_names [''GPU: 0 NAME: x''] = 1"
  by (simp add: getProcessInfo_def scan_line_def HasPrefix_def Fields_def isSpace_def
      marked_names_def extracted_name_def after_colon_def TrimSpace_def zero_ProcessInfo_def)

text \<open>
  Claim C3, amended. When every line that begins with the device marker has a second
  field (the parser panics on one that has not), the parser returns, and the number of
  records equals the number of lines that reach the name branch (they hold the name
  marker and do not begin with the device marker) and have a non-empty extracted name.
  The record in progress after the last line is among them.
\<close>

theorem records_per_started_name:
  assumes "\<forall>l\<in>set lines. device_line_ok l"
  shows "\<exists>ps. getProcessInfo ParseFloat (Some lines) = Inr ps \<and> length ps = started_names lines"
proof -
  let ?st0 = "\<lparr> processes = [], currentGPU = - 1, currentProcess = zero_ProcessInfo \<rparr>"
  have f0: "flush ?st0 = []"
    by (simp add: flush_def zero_ProcessInfo_def)
  from scan_lines_count [OF assms, of ParseFloat ?st0] obtain st' where
    "scan_lines ParseFloat ?st0 lines = Inr st'"
    "length (flush st') = started_names lines"
    unfolding f0 by auto
  then show ?thesis
    by (simp add: getProcessInfo_flush)
qed

theorem records_per_started_name_witness:
  "list_all device_line_ok
     [''GPU: 0'', ''    NAME: python'', ''    PID: 12'', ''    NAME: '',
      ''GPU: 1 NAME: z'', ''    NAME: last''] \<and>
   (\<exists>ps. getProcessInfo ParseFloat_int
           (Some [''GPU: 0'', ''    NAME: python'', ''    PID: 12'', ''    NAME: '',
                  ''GPU: 1 NAME: z'', ''    NAME: last'']) = Inr ps \<and>
         length ps = 2)"
proof -
  let ?L = "[''GPU: 0'', ''    NAME: python'', ''    PID: 12'', ''    NAME: '',
             ''GPU: 1 NAME: z'', ''    NAME: last'']"
  have ok: "\<forall>l\<in>set ?L. device_line_ok l"
    by (simp add: device_line_ok_def HasPrefix_def Fields_def isSpace_def)
  have n: "started_names ?L = 2"
    by (simp add: started_names_def is_name_line_def HasPrefix_def extracted_name_def
        after_colon_def TrimSpace_def isSpace_def)
  from records_per_started_name [OF ok, of ParseFloat_int] n
  have "\<exists>ps. getProcessInfo ParseFloat_int (Some ?L) = Inr ps \<and> length ps = 2"
    by simp
  moreover from ok have "list_all device_line_ok ?L"
    by (simp only: list_all_iff)
  ultimately show ?thesis by (rule conjI [rotated])
qed

text \<open>
  Claim C10. A line that takes the name branch before any line with the device marker
  starts a record whose device index is the initial \<open>-1\<close>: when the name is not empty
  and the parser returns, that record is in the result, at the position given by the
  names started before it.
\<close>

theorem name_before_device:
  assumes "\<forall>x\<in>set pre. \<not> HasPrefix x ''GPU:''"
    and "is_name_line l" and "extracted_name l \<noteq> []"
    and "\<forall>x\<in>set post. device_line_ok x"
  shows "\<exists>ps. getProcessInfo ParseFloat (Some (pre @ l # post)) = Inr ps \<and>
           started_names pre < length ps \<and>
           GPU (ps ! started_names pre) = - 1 \<and>
           Name (ps ! started_names pre) = extracted_name l"
proof -
  let ?st0 = "\<lparr> processes = [], currentGPU = - 1, currentProcess = zero_ProcessInfo \<rparr>"
  from assms(1) have okpre: "\<forall>x\<in>set pre. device_line_ok x"
    by (simp add: device_line_ok_def)
  have f0: "flush ?st0 = []"
    by (simp add: flush_def zero_ProcessInfo_def)
  from scan_lines_count [OF okpre, of ParseFloat ?st0] assms(1) obtain s1 where
    s1: "scan_lines ParseFloat ?st0 pre = Inr s1"
      "length (flush s1) = started_names pre" "currentGPU s1 = - 1"
    unfolding f0 by auto
  let ?s2 = "\<lparr> processes = flush s1, currentGPU = currentGPU s1,
               currentProcess = zero_ProcessInfo \<lparr> GPU := currentGPU s1, Name := extracted_name l \<rparr> \<rparr>"
  have s2: "scan_line ParseFloat s1 l = Inr ?s2"
    by (rule scan_line_name [OF assms(2)])
  have "Name (currentProcess ?s2) \<noteq> []"
    using assms(3) by simp
  from scan_lines_keeps [OF assms(4) this, of ParseFloat] obtain s3 where
    s3: "scan_lines ParseFloat ?s2 post = Inr s3"
      "length (processes ?s2) < length (flush s3)"
      "GPU (flush s3 ! length (processes ?s2)) = GPU (currentProcess ?s2)"
      "Name (flush s3 ! length (processes ?s2)) = Name (currentProcess ?s2)"
    by blast
  have "getProcessInfo ParseFloat (Some (pre @ l # post)) = Inr (flush s3)"
    by (simp add: getProcessInfo_flush scan_lines_append s1(1) s2 s3(1))
  with s3 s1 show ?thesis by simp
qed

theorem name_before_device_witness:
  "list_all (\<lambda>x. \<not> HasPrefix x ''GPU:'') [''PROCESS_INFO:''] \<and>
   is_name_line ''    NAME: python'' \<and> extracted_name ''    NAME: python'' \<noteq> [] \<and>
   list_all device_line_ok [''    PID: 7'', ''GPU: 0'', ''    NAME: other''] \<and>
   (\<exists>ps. getProcessInfo ParseFloat_int
           (Some [''PROCESS_INFO:'', ''    NAME: python'', ''    PID: 7'', ''GPU: 0'',
                  ''    NAME: other'']) = Inr ps \<and>
         0 < length ps \<and> GPU (ps ! 0) = - 1 \<and> Name (ps ! 0) = ''python'')"
proof -
  have pre: "\<forall>x\<in>set [''PROCESS_INFO:'']. \<not> HasPrefix x ''GPU:''"
    by (simp add: HasPrefix_def)
  have l: "is_name_line ''    NAME: python''"
    by (simp add: is_name_line_def HasPrefix_def)
  have e: "extracted_name ''    NAME: python'' = ''python''"
    by (simp add: extracted_name_def after_colon_def TrimSpace_def isSpace_def)
  then have ne: "extracted_name ''    NAME: python'' \<noteq> []"
    by simp
  have post: "\<forall>x\<in>set [''    PID: 7'', ''GPU: 0'', ''    NAME: other'']. device_line_ok x"
    by (simp add: device_line_ok_def HasPrefix_def Fields_def isSpace_def)
  have n: "started_names [''PROCESS_INFO:''] = 0"
    by (simp add: started_names_def is_name_line_def HasPrefix_def)
  from name_before_device [OF pre l ne post, of ParseFloat_int] n e
  have r: "\<exists>ps. getProcessInfo ParseFloat_int
           (Some [''PROCESS_INFO:'', ''    NAME: python'', ''    PID: 7'', ''GPU: 0'',
                  ''    NAME: other'']) = Inr ps \<and>
         0 < length ps \<and> GPU (ps ! 0) = - 1 \<and> Name (ps ! 0) = ''python''"
    by simp
  from pre have pre': "list_all (\<lambda>x. \<not> HasPrefix x ''GPU:'') [''PROCESS_INFO:'']"
    by (simp only: list_all_iff)
  from post have post': "list_all device_line_ok [''    PID: 7'', ''GPU: 0'', ''    NAME: other'']"
    by (simp only: list_all_iff)
  from pre' l ne post' r show ?thesis by blast
qed

text \<open>
  Claim C4. A GFX line of 500000000 ns (5e8) gives the usage string \<open>50.0%\<close>: the
  number divided by 1e9, times 100, printed with one decimal and a percent sign. A value
  that is zero, negative or not an integer in decimal gives \<open>0.0%\<close>; so does the text
  \<open>5e8\<close> itself, which \<^verbatim>\<open>ParseInt\<close> does not read.
\<close>

theorem gfx_usage_normalised:
  "getProcessInfo ParseFloat_int (Some [''NAME: app'', ''GFX: 500000000 ns'']) =
     Inr [\<lparr> GPU = - 1, Name = ''app'', PID = [], GTTMem = 0, CPUMem = 0, VRAMMem = 0,
            TotalMem = 0, GFXUsage = ''50.0%'' \<rparr>] \<and>
   gfx_usage '' 500000000 ns'' = ''50.0%'' \<and>
   gfx_usage '' 0 ns'' = ''0.0%'' \<and>
   (\<forall>f v err. ParseInt (TrimSuffix (TrimSpace f) '' ns'') = (v, err) \<longrightarrow>
      err \<noteq> None \<or> v \<le> 0 \<longrightarrow> gfx_usage f = ''0.0%'') \<and>
   (\<forall>f v. ParseInt (TrimSuffix (TrimSpace f) '' ns'') = (v, None) \<longrightarrow> 0 < v \<longrightarrow>
      gfx_usage f = gfx_percent v)"
proof (intro conjI allI impI)
  show "getProcessInfo ParseFloat_int (Some [''NAME: app'', ''GFX: 500000000 ns'']) =
     Inr [\<lparr> GPU = - 1, Name = ''app'', PID = [], GTTMem = 0, CPUMem = 0, VRAMMem = 0,
            TotalMem = 0, GFXUsage = ''50.0%'' \<rparr>]"
    by (simp add: getProcessInfo_def scan_line_def HasPrefix_def after_colon_def TrimSpace_def
        isSpace_def zero_ProcessInfo_def gfx_usage_5e8)
  show "gfx_usage '' 500000000 ns'' = ''50.0%''"
    by (rule gfx_usage_5e8)
  show "gfx_usage '' 0 ns'' = ''0.0%''"
    by (rule gfx_usage_examples)
next
  fix f v err
  assume "ParseInt (TrimSuffix (TrimSpace f) '' ns'') = (v, err)" "err \<noteq> None \<or> v \<le> 0"
  then show "gfx_usage f = ''0.0%''"
    by (rule gfx_usage_nonpositive)
next
  fix f v
  assume "ParseInt (TrimSuffix (TrimSpace f) '' ns'') = (v, None)" "0 < v"
  then show "gfx_usage f = gfx_percent v"
    by (rule gfx_usage_positive)
qed

theorem gfx_usage_normalised_witness:
  "ParseInt (TrimSuffix (TrimSpace '' -250 ns'') '' ns'') = (- 250, None) \<and> (- 250 :: int) \<le> 0 \<and>
   gfx_usage '' -250 ns'' = ''0.0%'' \<and>
   ParseInt (TrimSuffix (TrimSpace '' 5e8 ns'') '' ns'') = (0, Some ErrSyntax) \<and>
   gfx_usage '' 5e8 ns'' = ''0.0%'' \<and>
   ParseInt (TrimSuffix (TrimSpace '' 500000000 ns'') '' ns'') = (500000000, None) \<and>
   (0 :: int) < 500000000 \<and>
   gfx_usage '' 500000000 ns'' = gfx_percent 500000000"
proof -
  have p1: "ParseInt (TrimSuffix (TrimSpace '' -250 ns'') '' ns'') = (- 250, None)"
    by (simp add: TrimSpace_def isSpace_def TrimSuffix_def HasSuffix_def
        ParseInt_def ParseUint_def isDigit_def digit_val_def maxUint64_def)
  have p2: "ParseInt (TrimSuffix (TrimSpace '' 5e8 ns'') '' ns'') = (0, Some ErrSyntax)"
    by (simp add: TrimSpace_def isSpace_def TrimSuffix_def HasSuffix_def
        ParseInt_def ParseUint_def isDigit_def digit_val_def maxUint64_def)
  have p3: "ParseInt (TrimSuffix (TrimSpace '' 500000000 ns'') '' ns'') = (500000000, None)"
    by (simp add: TrimSpace_def isSpace_def TrimSuffix_def HasSuffix_def
        ParseInt_def ParseUint_def isDigit_def digit_val_def maxUint64_def)
  note t = gfx_usage_normalised [THEN conjunct2, THEN conjunct2, THEN conjunct2]
  from t [THEN conjunct1, rule_format, OF p1] have a: "gfx_usage '' -250 ns'' = ''0.0%''"
    by simp
  from t [THEN conjunct1, rule_format, OF p2] have b: "gfx_usage '' 5e8 ns'' = ''0.0%''"
    by simp
  from t [THEN conjunct2, rule_format, OF p3]
  have c: "gfx_usage '' 500000000 ns'' = gfx_percent 500000000"
    by simp
  from p1 p2 p3 a b c show ?thesis by simp
qed

section \<open>The delimited-row parsers: proofs\<close>

lemma metrics_loop_acc:
  "metrics_loop pf acc lines = acc @ concat (map (row_metrics pf) lines)"
  by (induction lines arbitrary: acc) (simp_all add: row_metrics_def Let_def)

lemma ParseUint_loop_cases:
  "ParseUint_loop n s = (v, e) \<Longrightarrow>
   (e = None \<and> v \<le> maxUint64 \<or> n > maxUint64) \<or> (e = Some ErrSyntax \<and> v = 0) \<or> (e = Some ErrRange \<and> v = maxUint64)"
  by (induction n s rule: ParseUint_loop.induct) (auto split: if_splits)

lemma ParseInt_cases:
  "ParseInt s = (v, Some ErrSyntax) \<Longrightarrow> v = 0"
  "ParseInt s = (v, Some ErrRange) \<Longrightarrow> v = 2 ^ 63 - 1 \<or> v = - (2 ^ 63)"
  "ParseInt s = (v, None) \<Longrightarrow> - (2 ^ 63) \<le> v \<and> v \<le> 2 ^ 63 - 1"
  by (auto simp: ParseInt_def Let_def split: if_splits prod.splits option.splits num_error.splits)

lemma process_of_record_ok:
  "9 \<le> length flds \<Longrightarrow> \<exists>r. process_of_record pf flds = Inr r"
  by (auto simp: process_of_record_def Let_def split: prod.splits option.splits)

lemma row_processes_Record:
  "row_processes pf (Record flds) =
     (case process_of_record pf flds of Inr (Some p) \<Rightarrow> [p] | _ \<Rightarrow> [])"
  by (simp add: row_processes_def)

lemma csv_loop_accepted:
  assumes "9 \<le> n" and "\<forall>r\<in>set rows. accepted n r"
  shows "csv_loop pf \<lparr> FieldsPerRecord = int n, pending = rows \<rparr> procs =
           Inr (procs @ concat (map (row_processes pf) rows))"
  using assms(2)
proof (induction rows arbitrary: procs)
  case Nil
  show ?case by (subst csv_loop.simps) (simp add: Read_def)
next
  case (Cons r rows)
  from Cons.prems obtain flds where r: "r = Record flds" and len: "length flds = n"
    by (cases r) (auto simp: accepted_def)
  from len assms(1) process_of_record_ok [of flds pf] obtain q where
    q: "process_of_record pf flds = Inr q" by auto
  have rd: "Read \<lparr> FieldsPerRecord = int n, pending = Record flds # rows \<rparr> =
            (Inr flds, \<lparr> FieldsPerRecord = int n, pending = rows \<rparr>)"
    using assms(1) len by (simp add: Read_def)
  from Cons.prems have rest: "\<forall>r\<in>set rows. accepted n r" by simp
  show ?case
    by (subst csv_loop.simps) (simp add: r rd q Cons.IH [OF rest] row_processes_Record split: option.splits)
qed

lemma csv_loop_rejected:
  assumes "9 \<le> n" and "\<forall>r\<in>set good. accepted n r" and "\<not> accepted n bad"
  shows "csv_loop pf \<lparr> FieldsPerRecord = int n, pending = good @ bad # rest \<rparr> procs =
           Inl CsvRecordError"
  using assms(2)
proof (induction good arbitrary: procs)
  case Nil
  have "\<exists>e r'. Read \<lparr> FieldsPerRecord = int n, pending = bad # rest \<rparr> = (Inl e, r') \<and> e \<noteq> EOF"
    using assms(1,3) by (cases bad) (auto simp: Read_def accepted_def)
  then obtain e r' where "Read \<lparr> FieldsPerRecord = int n, pending = bad # rest \<rparr> = (Inl e, r')"
    "e \<noteq> EOF" by blast
  then show ?case
    by (subst csv_loop.simps) (cases e; simp)
next
  case (Cons r rows)
  from Cons.prems obtain flds where r: "r = Record flds" and len: "length flds = n"
    by (cases r) (auto simp: accepted_def)
  from len assms(1) process_of_record_ok [of flds pf] obtain q where
    q: "process_of_record pf flds = Inr q" by auto
  have rd: "Read \<lparr> FieldsPerRecord = int n, pending = Record flds # rows @ bad # rest \<rparr> =
            (Inr flds, \<lparr> FieldsPerRecord = int n, pending = rows @ bad # rest \<rparr>)"
    using assms(1) len by (simp add: Read_def)
  from Cons.prems have rest: "\<forall>r\<in>set rows. accepted n r" by simp
  show ?case
    by (subst csv_loop.simps) (simp add: r rd q Cons.IH [OF rest] split: option.splits)
qed

lemma Read_header:
  "0 < length header \<Longrightarrow>
   Read (NewReader (Record header # rows)) =
     (Inr header, \<lparr> FieldsPerRecord = int (length header), pending = rows \<rparr>)"
  by (simp add: Read_def NewReader_def)


lemma Atoi_syntax_zero: "snd (Atoi s) = Some ErrSyntax \<Longrightarrow> fst (Atoi s) = 0"
  using ParseInt_cases(1) [of s "fst (Atoi s)"] by (simp add: Atoi_def prod_eq_iff)

lemma Atoi_range_bound:
  "snd (Atoi s) = Some ErrRange \<Longrightarrow> fst (Atoi s) = 2 ^ 63 - 1 \<or> fst (Atoi s) = - (2 ^ 63)"
  using ParseInt_cases(2) [of s "fst (Atoi s)"] by (simp add: Atoi_def prod_eq_iff)

lemma Atoi_too_large: "Atoi ''99999999999999999999'' = (9223372036854775807, Some ErrRange)"
  by (simp add: Atoi_def ParseInt_def ParseUint_def isDigit_def digit_val_def maxUint64_def)

lemma float_fields_parsed:
  "float_fields (metrics_of_fields pf flds) = map (\<lambda>t. fst (pf t)) (float_texts flds)"
  by (simp add: float_fields_def float_texts_def metrics_of_fields_def)

lemma row_metrics_short: "length (Split row CHR '','') < 17 \<Longrightarrow> row_metrics pf row = []"
  by (simp add: row_metrics_def)

lemma row_metrics_full:
  "17 \<le> length (Split row CHR '','') \<Longrightarrow>
   row_metrics pf row = [metrics_of_fields pf (Split row CHR '','')]"
  by (simp add: row_metrics_def)

lemma getGPUMetrics_rows:
  "getGPUMetrics pf (Some (header # rows)) = Inr (concat (map (row_metrics pf) rows))"
  by (simp add: getGPUMetrics_def metrics_loop_acc)

lemma row_processes_marker:
  "2 \<le> length flds \<Longrightarrow> Contains (flds ! 1) ''No running processes detected'' \<Longrightarrow>
   row_processes pf (Record flds) = []"
  by (simp add: row_processes_Record process_of_record_def)

lemma row_processes_bad_index:
  "2 \<le> length flds \<Longrightarrow> snd (Atoi (flds ! 0)) \<noteq> None \<Longrightarrow> row_processes pf (Record flds) = []"
  by (auto simp: row_processes_Record process_of_record_def split: prod.splits option.splits)

lemma row_processes_record:
  "9 \<le> length flds \<Longrightarrow> \<not> Contains (flds ! 1) ''No running processes detected'' \<Longrightarrow>
   Atoi (flds ! 0) = (g, None) \<Longrightarrow>
   row_processes pf (Record flds) =
     [\<lparr> GPU = g, Name = flds ! 3, PID = flds ! 4,
        GTTMem = fst (pf (flds ! 7)) / 1024 / 1024,
        CPUMem = fst (pf (flds ! 5)) / 1024 / 1024,
        VRAMMem = fst (pf (flds ! 2)) / 1024 / 1024,
        TotalMem = fst (pf (flds ! 8)) / 1024 / 1024,
        GFXUsage = flds ! 6 @ ''%'' \<rparr>]"
  by (simp add: row_processes_Record process_of_record_def)

lemma getProcessInfo_csv_accepted:
  assumes "9 \<le> length header" and "\<forall>r\<in>set rows. accepted (length header) r"
  shows "getProcessInfo_csv pf (Some (Record header # rows)) =
           Inr (concat (map (row_processes pf) rows))"
proof -
  from assms(1) have "0 < length header" by (cases header) simp_all
  from Read_header [OF this, of rows] csv_loop_accepted [OF assms, of pf "[]"]
  show ?thesis by (simp add: getProcessInfo_csv_def)
qed

lemma getProcessInfo_csv_rejected:
  assumes "9 \<le> length header" and "\<forall>r\<in>set good. accepted (length header) r"
    and "\<not> accepted (length header) bad"
  shows "getProcessInfo_csv pf (Some (Record header # good @ bad # rest)) = Inl CsvRecordError"
proof -
  from assms(1) have "0 < length header" by (cases header) simp_all
  from Read_header [OF this, of "good @ bad # rest"] csv_loop_rejected [OF assms, of pf rest "[]"]
  show ?thesis by (simp add: getProcessInfo_csv_def)
qed

text \<open>The example rows of the delimited process format.\<close>

lemma example_row:
  "row_processes ParseFloat_int
     (Record [''0'', ''x'', ''1048576'', ''python'', ''42'', ''0'', ''7'', ''2097152'', ''3145728'']) =
   [\<lparr> GPU = 0, Name = ''python'', PID = ''42'', GTTMem = 2, CPUMem = 0, VRAMMem = 1,
      TotalMem = 3, GFXUsage = ''7%'' \<rparr>]"
  by (simp add: row_processes_Record process_of_record_def Atoi_def ParseInt_def ParseUint_def
      ParseFloat_int_def isDigit_def digit_val_def maxUint64_def HasPrefix_def)

lemma example_marker_row:
  "row_processes ParseFloat_int
     (Record [''1'', ''No running processes detected'', ''N/A'', ''N/A'', ''N/A'', ''N/A'', ''N/A'',
              ''N/A'', ''N/A'']) = []"
  by (simp add: row_processes_marker HasPrefix_def)

lemma example_bad_index_row:
  "row_processes ParseFloat_int
     (Record [''gpu0'', ''x'', ''1'', ''python'', ''42'', ''0'', ''7'', ''2'', ''3'']) = []"
  by (rule row_processes_bad_index)
     (simp_all add: Atoi_def ParseInt_def ParseUint_def isDigit_def digit_val_def maxUint64_def)

section \<open>The delimited-row parsers: the claims\<close>

text \<open>
  Claim C5, as stated: a numeric field that fails to parse contributes zero. The device
  index is read with \<^verbatim>\<open>strconv.Atoi\<close> and its error is dropped; for digits beyond the
  range of \<^verbatim>\<open>int\<close> the conversion reports a range error and returns the largest
  \<^verbatim>\<open>int\<close>, which the record then holds.
\<close>

theorem device_index_out_of_range_counterexample:
  "snd (Atoi ''99999999999999999999'') = Some ErrRange \<and>
   getGPUMetrics ParseFloat_int
     (Some [''gpu,power'', ''99999999999999999999,1,2,3,4,5,6,7,8,9,10,11,12,13,14,15,16'']) =
   Inr [\<lparr> ID = 9223372036854775807, Power = 1, GPUTemp = 2, MemTemp = 3, GFXUtil = 4,
          GFXClock = 5, MemUtil = 6, MemClock = 7, VRAMUsed = 15, VRAMTotal = 16 \<rparr>]"
  by (simp add: getGPUMetrics_def metrics_of_fields_def Atoi_def ParseInt_def ParseUint_def
      ParseFloat_int_def isDigit_def digit_val_def maxUint64_def)

text \<open>
  Claim C5, amended. The parser never returns an error once the command has run. Each
  line after the header adds its own records to the result whatever the other lines are:
  none when it has fewer than 17 fields, exactly one otherwise. A field of that record
  holds the value its conversion returned, the error dropped: for the device index that
  is zero when the text is not an integer and the nearest bound of \<^verbatim>\<open>int\<close> when it is
  out of range; for a float field it is what \<^verbatim>\<open>ParseFloat\<close> returned, hence zero on a
  syntax error when \<^verbatim>\<open>ParseFloat\<close> returns zero with that error.
\<close>

theorem device_rows_parsed:
  "getGPUMetrics ParseFloat (Some []) = Inr [] \<and>
   getGPUMetrics ParseFloat (Some (header # rows)) =
     Inr (concat (map (row_metrics ParseFloat) rows)) \<and>
   (\<forall>row. length (Split row CHR '','') < 17 \<longrightarrow> row_metrics ParseFloat row = []) \<and>
   (\<forall>row. 17 \<le> length (Split row CHR '','') \<longrightarrow>
      (\<exists>m. row_metrics ParseFloat row = [m] \<and>
           ID m = fst (Atoi (Split row CHR '','' ! 0)) \<and>
           float_fields m = map (\<lambda>t. fst (ParseFloat t)) (float_texts (Split row CHR '','')))) \<and>
   (\<forall>s. snd (Atoi s) = Some ErrSyntax \<longrightarrow> fst (Atoi s) = 0) \<and>
   (\<forall>s. snd (Atoi s) = Some ErrRange \<longrightarrow> fst (Atoi s) = 2 ^ 63 - 1 \<or> fst (Atoi s) = - (2 ^ 63)) \<and>
   ((\<forall>s. snd (ParseFloat s) = Some ErrSyntax \<longrightarrow> fst (ParseFloat s) = 0) \<longrightarrow>
    (\<forall>flds i. i < 9 \<longrightarrow> snd (ParseFloat (float_texts flds ! i)) = Some ErrSyntax \<longrightarrow>
       float_fields (metrics_of_fields ParseFloat flds) ! i = 0))"
proof (intro conjI allI impI)
  show "getGPUMetrics ParseFloat (Some []) = Inr []"
    by (simp add: getGPUMetrics_def)
  show "getGPUMetrics ParseFloat (Some (header # rows)) =
     Inr (concat (map (row_metrics ParseFloat) rows))"
    by (rule getGPUMetrics_rows)
next
  fix row
  assume "length (Split row CHR '','') < 17"
  then show "row_metrics ParseFloat row = []"
    by (rule row_metrics_short)
next
  fix row
  assume "17 \<le> length (Split row CHR '','')"
  then have "row_metrics ParseFloat row = [metrics_of_fields ParseFloat (Split row CHR '','')]"
    by (rule row_metrics_full)
  moreover have "ID (metrics_of_fields ParseFloat (Split row CHR '','')) =
                 fst (Atoi (Split row CHR '','' ! 0))"
    by (simp add: metrics_of_fields_def)
  ultimately show "\<exists>m. row_metrics ParseFloat row = [m] \<and>
           ID m = fst (Atoi (Split row CHR '','' ! 0)) \<and>
           float_fields m = map (\<lambda>t. fst (ParseFloat t)) (float_texts (Split row CHR '',''))"
    by (simp add: float_fields_parsed)
next
  fix s
  assume "snd (Atoi s) = Some ErrSyntax"
  then show "fst (Atoi s) = 0"
    by (rule Atoi_syntax_zero)
next
  fix s
  assume "snd (Atoi s) = Some ErrRange"
  then show "fst (Atoi s) = 2 ^ 63 - 1 \<or> fst (Atoi s) = - (2 ^ 63)"
    by (rule Atoi_range_bound)
next
  fix flds :: "string list" and i :: nat
  assume c: "\<forall>s. snd (ParseFloat s) = Some ErrSyntax \<longrightarrow> fst (ParseFloat s) = 0"
    and i: "i < 9" and e: "snd (ParseFloat (float_texts flds ! i)) = Some ErrSyntax"
  have "length (float_texts flds) = 9"
    by (simp add: float_texts_def)
  with i have "float_fields (metrics_of_fields ParseFloat flds) ! i =
               fst (ParseFloat (float_texts flds ! i))"
    by (simp add: float_fields_parsed)
  with c e show "float_fields (metrics_of_fields ParseFloat flds) ! i = 0"
    by simp
qed

theorem device_rows_parsed_witness:
  "getGPUMetrics ParseFloat_int
     (Some [''gpu,power'', ''x,abc,2,3,4,5,6,7,8,9,10,11,12,13,14,15,16'', ''1,2'',
            [], ''3,0,0,0,0,0,0,0,0,0,0,0,0,0,0,0,9'']) =
   Inr [\<lparr> ID = 0, Power = 0, GPUTemp = 2, MemTemp = 3, GFXUtil = 4, GFXClock = 5,
          MemUtil = 6, MemClock = 7, VRAMUsed = 15, VRAMTotal = 16 \<rparr>,
        \<lparr> ID = 3, Power = 0, GPUTemp = 0, MemTemp = 0, GFXUtil = 0, GFXClock = 0,
          MemUtil = 0, MemClock = 0, VRAMUsed = 0, VRAMTotal = 9 \<rparr>] \<and>
   length (Split ''1,2'' CHR '','') < 17 \<and> row_metrics ParseFloat_int ''1,2'' = [] \<and>
   snd (Atoi ''x'') = Some ErrSyntax \<and> fst (Atoi ''x'') = 0 \<and>
   snd (Atoi ''99999999999999999999'') = Some ErrRange \<and>
   fst (Atoi ''99999999999999999999'') = 2 ^ 63 - 1 \<and>
   snd (ParseFloat_int ''abc'') = Some ErrSyntax \<and>
   float_fields (metrics_of_fields ParseFloat_int
     (Split ''x,abc,2,3,4,5,6,7,8,9,10,11,12,13,14,15,16'' CHR '','')) ! 0 = 0"
proof -
  note t = device_rows_parsed [of ParseFloat_int "''gpu,power''"
      "[''x,abc,2,3,4,5,6,7,8,9,10,11,12,13,14,15,16'', ''1,2'', [],
        ''3,0,0,0,0,0,0,0,0,0,0,0,0,0,0,0,9'']"]
  let ?r1 = "''x,abc,2,3,4,5,6,7,8,9,10,11,12,13,14,15,16''"
  have sx: "snd (Atoi ''x'') = Some ErrSyntax"
    by (simp add: Atoi_def ParseInt_def ParseUint_def isDigit_def)
  have sr: "snd (Atoi ''99999999999999999999'') = Some ErrRange"
    by (simp add: Atoi_too_large)
  have contract: "\<forall>s. snd (ParseFloat_int s) = Some ErrSyntax \<longrightarrow> fst (ParseFloat_int s) = 0"
    by (auto simp: ParseFloat_int_def split: prod.splits option.splits)
  have pa: "snd (ParseFloat_int ''abc'') = Some ErrSyntax"
    by (simp add: ParseFloat_int_def ParseInt_def ParseUint_def isDigit_def)
  have short: "length (Split ''1,2'' CHR '','') < 17"
    by simp
  have m1: "row_metrics ParseFloat_int ?r1 =
            [\<lparr> ID = 0, Power = 0, GPUTemp = 2, MemTemp = 3, GFXUtil = 4, GFXClock = 5,
               MemUtil = 6, MemClock = 7, VRAMUsed = 15, VRAMTotal = 16 \<rparr>]"
    by (simp add: row_metrics_def metrics_of_fields_def Atoi_def ParseInt_def ParseUint_def
        ParseFloat_int_def isDigit_def digit_val_def maxUint64_def)
  have m2: "row_metrics ParseFloat_int ''1,2'' = []" "row_metrics ParseFloat_int [] = []"
    by (simp_all add: row_metrics_def)
  have m3: "row_metrics ParseFloat_int ''3,0,0,0,0,0,0,0,0,0,0,0,0,0,0,0,9'' =
            [\<lparr> ID = 3, Power = 0, GPUTemp = 0, MemTemp = 0, GFXUtil = 0, GFXClock = 0,
               MemUtil = 0, MemClock = 0, VRAMUsed = 0, VRAMTotal = 9 \<rparr>]"
    by (simp add: row_metrics_def metrics_of_fields_def Atoi_def ParseInt_def ParseUint_def
        ParseFloat_int_def isDigit_def digit_val_def maxUint64_def)
  have a: "getGPUMetrics ParseFloat_int
     (Some [''gpu,power'', ?r1, ''1,2'', [], ''3,0,0,0,0,0,0,0,0,0,0,0,0,0,0,0,9'']) =
   Inr [\<lparr> ID = 0, Power = 0, GPUTemp = 2, MemTemp = 3, GFXUtil = 4, GFXClock = 5,
          MemUtil = 6, MemClock = 7, VRAMUsed = 15, VRAMTotal = 16 \<rparr>,
        \<lparr> ID = 3, Power = 0, GPUTemp = 0, MemTemp = 0, GFXUtil = 0, GFXClock = 0,
          MemUtil = 0, MemClock = 0, VRAMUsed = 0, VRAMTotal = 9 \<rparr>]"
    using t [THEN conjunct2, THEN conjunct1] by (simp add: m1 m2 m3)
  have b: "row_metrics ParseFloat_int ''1,2'' = []"
    using t [THEN conjunct2, THEN conjunct2, THEN conjunct1, rule_format, OF short] .
  have c: "fst (Atoi ''x'') = 0"
    using t [THEN conjunct2, THEN conjunct2, THEN conjunct2, THEN conjunct2, THEN conjunct1,
        rule_format, OF sx] .
  have d: "fst (Atoi ''99999999999999999999'') = 2 ^ 63 - 1"
    using t [THEN conjunct2, THEN conjunct2, THEN conjunct2, THEN conjunct2, THEN conjunct2,
        THEN conjunct1, rule_format, OF sr] by (simp add: Atoi_too_large)
  have e: "float_fields (metrics_of_fields ParseFloat_int (Split ?r1 CHR '','')) ! 0 = 0"
    using t [THEN conjunct2, THEN conjunct2, THEN conjunct2, THEN conjunct2, THEN conjunct2,
        THEN conjunct2, rule_format, OF contract [rule_format],
        where i = 0 and flds = "Split ?r1 CHR '',''"] pa
    by (simp add: float_texts_def)
  from a short b sx c sr d pa e show ?thesis by blast
qed

text \<open>
  Claim C6, as stated: a row with too few fields never makes the parser return an error
  for the batch, and the records of the other rows are still returned. The CSV reader
  fixes the number of fields with the header and returns an error for a row with another
  number of fields, and the parser returns that error in place of the records: the third
  row below has three fields after a header of nine.
\<close>

theorem short_row_aborts_batch_counterexample:
  "getProcessInfo_csv ParseFloat_int
     (Some [Record [''gpu'', ''name'', ''vram'', ''n'', ''pid'', ''cpu'', ''gfx'', ''gtt'', ''total''],
            Record [''0'', ''x'', ''1048576'', ''python'', ''42'', ''0'', ''7'', ''2097152'', ''3145728''],
            Record [''0'', ''x'', ''1'']]) = Inl CsvRecordError \<and>
   getProcessInfo_csv ParseFloat_int
     (Some [Record [''gpu'', ''name'', ''vram'', ''n'', ''pid'', ''cpu'', ''gfx'', ''gtt'', ''total''],
            Record [''0'', ''x'', ''1048576'', ''python'', ''42'', ''0'', ''7'', ''2097152'', ''3145728'']]) =
   Inr [\<lparr> GPU = 0, Name = ''python'', PID = ''42'', GTTMem = 2, CPUMem = 0, VRAMMem = 1,
          TotalMem = 3, GFXUsage = ''7%'' \<rparr>]"
proof
  let ?h = "[''gpu'', ''name'', ''vram'', ''n'', ''pid'', ''cpu'', ''gfx'', ''gtt'', ''total'']"
  let ?g = "Record [''0'', ''x'', ''1048576'', ''python'', ''42'', ''0'', ''7'', ''2097152'', ''3145728'']"
  have h: "9 \<le> length ?h" by simp
  have g: "\<forall>r\<in>set [?g]. accepted (length ?h) r" by (simp add: accepted_def)
  have b: "\<not> accepted (length ?h) (Record [''0'', ''x'', ''1''])" by (simp add: accepted_def)
  from getProcessInfo_csv_rejected [OF h g b, of ParseFloat_int "[]"]
  show "getProcessInfo_csv ParseFloat_int (Some [Record ?h, ?g, Record [''0'', ''x'', ''1'']]) =
        Inl CsvRecordError"
    by simp
  from getProcessInfo_csv_accepted [OF h g, of ParseFloat_int]
  show "getProcessInfo_csv ParseFloat_int (Some [Record ?h, ?g]) =
        Inr [\<lparr> GPU = 0, Name = ''python'', PID = ''42'', GTTMem = 2, CPUMem = 0, VRAMMem = 1,
               TotalMem = 3, GFXUsage = ''7%'' \<rparr>]"
    by (simp add: example_row)
qed

text \<open>
  Claim C6, amended. After a header of at least nine fields: when every row has the
  header's number of fields and is well quoted, the parser returns the records of the
  rows in order, where a row with the no-running-processes marker or with a device index
  that does not parse adds nothing and any other row adds one record, its memory fields
  being the values \<^verbatim>\<open>ParseFloat\<close> returned, divided twice by 1024; but the first row
  the reader rejects (another number of fields than the header, or a misplaced quote)
  makes the parser return an error in place of all records.
\<close>

theorem csv_rows_parsed:
  assumes "9 \<le> length header"
  shows "(list_all (accepted (length header)) rows \<longrightarrow>
           getProcessInfo_csv ParseFloat (Some (Record header # rows)) =
             Inr (concat (map (row_processes ParseFloat) rows))) \<and>
         (list_all (accepted (length header)) good \<longrightarrow> \<not> accepted (length header) bad \<longrightarrow>
           getProcessInfo_csv ParseFloat (Some (Record header # good @ bad # rest)) =
             Inl CsvRecordError) \<and>
         (\<forall>flds. 2 \<le> length flds \<longrightarrow> Contains (flds ! 1) ''No running processes detected'' \<longrightarrow>
            row_processes ParseFloat (Record flds) = []) \<and>
         (\<forall>flds. 2 \<le> length flds \<longrightarrow> snd (Atoi (flds ! 0)) \<noteq> None \<longrightarrow>
            row_processes ParseFloat (Record flds) = []) \<and>
         (\<forall>flds g. 9 \<le> length flds \<longrightarrow>
            \<not> Contains (flds ! 1) ''No running processes detected'' \<longrightarrow>
            Atoi (flds ! 0) = (g, None) \<longrightarrow>
            row_processes ParseFloat (Record flds) =
              [\<lparr> GPU = g, Name = flds ! 3, PID = flds ! 4,
                 GTTMem = fst (ParseFloat (flds ! 7)) / 1024 / 1024,
                 CPUMem = fst (ParseFloat (flds ! 5)) / 1024 / 1024,
                 VRAMMem = fst (ParseFloat (flds ! 2)) / 1024 / 1024,
                 TotalMem = fst (ParseFloat (flds ! 8)) / 1024 / 1024,
                 GFXUsage = flds ! 6 @ ''%'' \<rparr>])"
proof (intro conjI allI impI)
  assume "list_all (accepted (length header)) rows"
  then have "\<forall>r\<in>set rows. accepted (length header) r"
    by (simp only: list_all_iff)
  from getProcessInfo_csv_accepted [OF assms this]
  show "getProcessInfo_csv ParseFloat (Some (Record header # rows)) =
          Inr (concat (map (row_processes ParseFloat) rows))" .
next
  assume "list_all (accepted (length header)) good" and b: "\<not> accepted (length header) bad"
  then have "\<forall>r\<in>set good. accepted (length header) r"
    by (simp only: list_all_iff)
  from getProcessInfo_csv_rejected [OF assms this b]
  show "getProcessInfo_csv ParseFloat (Some (Record header # good @ bad # rest)) =
          Inl CsvRecordError" .
next
  fix flds :: "string list"
  assume "2 \<le> length flds" "Contains (flds ! 1) ''No running processes detected''"
  then show "row_processes ParseFloat (Record flds) = []"
    by (rule row_processes_marker)
next
  fix flds :: "string list"
  assume "2 \<le> length flds" "snd (Atoi (flds ! 0)) \<noteq> None"
  then show "row_processes ParseFloat (Record flds) = []"
    by (rule row_processes_bad_index)
next
  fix flds :: "string list" and g
  assume "9 \<le> length flds" "\<not> Contains (flds ! 1) ''No running processes detected''"
    "Atoi (flds ! 0) = (g, None)"
  then show "row_processes ParseFloat (Record flds) =
              [\<lparr> GPU = g, Name = flds ! 3, PID = flds ! 4,
                 GTTMem = fst (ParseFloat (flds ! 7)) / 1024 / 1024,
                 CPUMem = fst (ParseFloat (flds ! 5)) / 1024 / 1024,
                 VRAMMem = fst (ParseFloat (flds ! 2)) / 1024 / 1024,
                 TotalMem = fst (ParseFloat (flds ! 8)) / 1024 / 1024,
                 GFXUsage = flds ! 6 @ ''%'' \<rparr>]"
    by (rule row_processes_record)
qed

theorem csv_rows_parsed_witness:
  "9 \<le> length [''gpu'', ''name'', ''vram'', ''n'', ''pid'', ''cpu'', ''gfx'', ''gtt'', ''total''] \<and>
   getProcessInfo_csv ParseFloat_int
     (Some [Record [''gpu'', ''name'', ''vram'', ''n'', ''pid'', ''cpu'', ''gfx'', ''gtt'', ''total''],
            Record [''0'', ''x'', ''1048576'', ''python'', ''42'', ''0'', ''7'', ''2097152'', ''3145728''],
            Record [''1'', ''No running processes detected'', ''N/A'', ''N/A'', ''N/A'', ''N/A'',
                    ''N/A'', ''N/A'', ''N/A''],
            Record [''gpu0'', ''x'', ''1'', ''python'', ''42'', ''0'', ''7'', ''2'', ''3'']]) =
   Inr [\<lparr> GPU = 0, Name = ''python'', PID = ''42'', GTTMem = 2, CPUMem = 0, VRAMMem = 1,
          TotalMem = 3, GFXUsage = ''7%'' \<rparr>] \<and>
   getProcessInfo_csv ParseFloat_int
     (Some [Record [''gpu'', ''name'', ''vram'', ''n'', ''pid'', ''cpu'', ''gfx'', ''gtt'', ''total''],
            Record [''0'', ''x'', ''1048576'', ''python'', ''42'', ''0'', ''7'', ''2097152'', ''3145728''],
            Unparsable,
            Record [''0'', ''x'', ''1048576'', ''python'', ''42'', ''0'', ''7'', ''2097152'', ''3145728'']]) =
   Inl CsvRecordError"
proof -
  let ?h = "[''gpu'', ''name'', ''vram'', ''n'', ''pid'', ''cpu'', ''gfx'', ''gtt'', ''total'']"
  let ?g = "Record [''0'', ''x'', ''1048576'', ''python'', ''42'', ''0'', ''7'', ''2097152'', ''3145728'']"
  let ?m = "Record [''1'', ''No running processes detected'', ''N/A'', ''N/A'', ''N/A'', ''N/A'',
                    ''N/A'', ''N/A'', ''N/A'']"
  let ?b = "Record [''gpu0'', ''x'', ''1'', ''python'', ''42'', ''0'', ''7'', ''2'', ''3'']"
  have h: "9 \<le> length ?h" by simp
  have rows: "list_all (accepted (length ?h)) [?g, ?m, ?b]"
    by (simp add: accepted_def)
  have good: "list_all (accepted (length ?h)) [?g]"
    by (simp add: accepted_def)
  have bad: "\<not> accepted (length ?h) Unparsable"
    by (simp add: accepted_def)
  from csv_rows_parsed [OF h, of "[?g, ?m, ?b]" ParseFloat_int, THEN conjunct1, rule_format, OF rows]
  have a: "getProcessInfo_csv ParseFloat_int (Some [Record ?h, ?g, ?m, ?b]) =
           Inr [\<lparr> GPU = 0, Name = ''python'', PID = ''42'', GTTMem = 2, CPUMem = 0, VRAMMem = 1,
                  TotalMem = 3, GFXUsage = ''7%'' \<rparr>]"
    by (simp add: example_row example_marker_row example_bad_index_row)
  from csv_rows_parsed [OF h, of _ ParseFloat_int "[?g]" Unparsable "[?g]", THEN conjunct2,
      THEN conjunct1, rule_format, OF good bad]
  have b: "getProcessInfo_csv ParseFloat_int (Some [Record ?h, ?g, Unparsable, ?g]) =
           Inl CsvRecordError"
    by simp
  from h a b show ?thesis by blast
qed

section \<open>The sort state: proofs and the claim\<close>

lemma sort_title_ok: "0 \<le> c \<Longrightarrow> c \<le> 3 \<Longrightarrow> \<exists>t. sort_title c r = Inr t"
  by (simp add: sort_title_def columns_def)

lemma handle_left:
  "handleProcessListEvents ''<Left>'' st =
     (if 0 < selectedColumn st then
        (case sort_title (selectedColumn st - 1) (sortReverse st) of
           Inl p \<Rightarrow> Inl p
         | Inr t \<Rightarrow> Inr (st \<lparr> processList := (processList st) \<lparr> Title := t \<rparr>,
                              selectedColumn := selectedColumn st - 1 \<rparr>))
      else Inr st)"
  by (simp add: handleProcessListEvents_def)

lemma handle_right:
  "handleProcessListEvents ''<Right>'' st =
     (if selectedColumn st < 3 then
        (case sort_title (selectedColumn st + 1) (sortReverse st) of
           Inl p \<Rightarrow> Inl p
         | Inr t \<Rightarrow> Inr (st \<lparr> processList := (processList st) \<lparr> Title := t \<rparr>,
                              selectedColumn := selectedColumn st + 1 \<rparr>))
      else Inr st)"
  by (simp add: handleProcessListEvents_def columns_def)

lemma handle_other:
  assumes "e \<noteq> ''<Left>''" and "e \<noteq> ''<Right>''"
  shows "\<exists>st'. handleProcessListEvents e st = Inr st' \<and> selectedColumn st' = selectedColumn st"
proof -
  have "handleProcessListEvents e st =
     (if e = ''<Up>'' then
        (if 0 < SelectedRow (processList st)
         then Inr (st \<lparr> processList := (processList st)
                          \<lparr> SelectedRow := SelectedRow (processList st) - 1 \<rparr> \<rparr>)
         else Inr st)
      else if e = ''<Down>'' then
        (if SelectedRow (processList st) < int (length (Rows (processList st))) - 1
         then Inr (st \<lparr> processList := (processList st)
                          \<lparr> SelectedRow := SelectedRow (processList st) + 1 \<rparr> \<rparr>)
         else Inr st)
      else if e = ''<Enter>'' \<or> e = ''<Space>'' then
        Inr (st \<lparr> sortReverse := \<not> sortReverse st \<rparr>)
      else Inr st)"
    unfolding handleProcessListEvents_def using assms by (simp only: if_False)
  then show ?thesis
    by (simp split: if_splits)
qed

lemma handleProcessListEvents_range:
  assumes "0 \<le> selectedColumn st" and "selectedColumn st \<le> 3"
  shows "\<exists>st'. handleProcessListEvents e st = Inr st' \<and>
           0 \<le> selectedColumn st' \<and> selectedColumn st' \<le> 3"
proof (cases "e = ''<Left>''")
  case True
  show ?thesis
  proof (cases "0 < selectedColumn st")
    case c: True
    with assms have "\<exists>t. sort_title (selectedColumn st - 1) (sortReverse st) = Inr t"
      by (intro sort_title_ok) simp_all
    then obtain t where "sort_title (selectedColumn st - 1) (sortReverse st) = Inr t" ..
    with True c assms show ?thesis by (simp add: handle_left)
  next
    case False
    with True assms show ?thesis by (simp add: handle_left)
  qed
next
  case nl: False
  show ?thesis
  proof (cases "e = ''<Right>''")
    case True
    show ?thesis
    proof (cases "selectedColumn st < 3")
      case c: True
      with assms have "\<exists>t. sort_title (selectedColumn st + 1) (sortReverse st) = Inr t"
        by (intro sort_title_ok) simp_all
      then obtain t where "sort_title (selectedColumn st + 1) (sortReverse st) = Inr t" ..
      with True c assms show ?thesis by (simp add: handle_right)
    next
      case False
      with True assms show ?thesis by (simp add: handle_right)
    qed
  next
    case False
    from handle_other [OF nl False, of st] assms show ?thesis by auto
  qed
qed

lemma handle_events_range:
  "0 \<le> selectedColumn st \<Longrightarrow> selectedColumn st \<le> 3 \<Longrightarrow>
   \<exists>st'. handle_events es st = Inr st' \<and> 0 \<le> selectedColumn st' \<and> selectedColumn st' \<le> 3"
proof (induction es arbitrary: st)
  case Nil
  then show ?case by simp
next
  case (Cons e es)
  from handleProcessListEvents_range [OF Cons.prems, of e] obtain s1 where
    s1: "handleProcessListEvents e st = Inr s1" "0 \<le> selectedColumn s1" "selectedColumn s1 \<le> 3"
    by blast
  from Cons.IH [OF s1(2,3)] s1(1) show ?case by simp
qed

text \<open>
  Claim C9. Whatever keys are pressed, starting from the initial state or from any state
  whose column is one of 0 to 3, the handler does not panic and the selected column stays
  within 0 to 3; a left key at column 0 and a right key at column 3 leave the whole state
  as it is.
\<close>

theorem sort_column_in_range:
  "(\<forall>es. \<exists>st. handle_events es initial_state = Inr st \<and>
            0 \<le> selectedColumn st \<and> selectedColumn st \<le> 3) \<and>
   (\<forall>es st. 0 \<le> selectedColumn st \<longrightarrow> selectedColumn st \<le> 3 \<longrightarrow>
      (\<exists>st'. handle_events es st = Inr st' \<and>
             0 \<le> selectedColumn st' \<and> selectedColumn st' \<le> 3)) \<and>
   (\<forall>st. selectedColumn st = 0 \<longrightarrow> handleProcessListEvents ''<Left>'' st = Inr st) \<and>
   (\<forall>st. selectedColumn st = 3 \<longrightarrow> handleProcessListEvents ''<Right>'' st = Inr st)"
proof (intro conjI allI impI)
  fix es
  show "\<exists>st. handle_events es initial_state = Inr st \<and>
            0 \<le> selectedColumn st \<and> selectedColumn st \<le> 3"
    by (rule handle_events_range) (simp_all add: initial_state_def)
next
  fix es and st :: ui_state
  assume "0 \<le> selectedColumn st" "selectedColumn st \<le> 3"
  then show "\<exists>st'. handle_events es st = Inr st' \<and>
             0 \<le> selectedColumn st' \<and> selectedColumn st' \<le> 3"
    by (rule handle_events_range)
next
  fix st :: ui_state
  assume "selectedColumn st = 0"
  then show "handleProcessListEvents ''<Left>'' st = Inr st"
    by (simp add: handle_left)
next
  fix st :: ui_state
  assume "selectedColumn st = 3"
  then show "handleProcessListEvents ''<Right>'' st = Inr st"
    by (simp add: handle_right)
qed

theorem sort_column_in_range_witness:
  "selectedColumn initial_state = 0 \<and>
   handleProcessListEvents ''<Left>'' initial_state = Inr initial_state \<and>
   selectedColumn (initial_state \<lparr> selectedColumn := 3 \<rparr>) = 3 \<and>
   handleProcessListEvents ''<Right>'' (initial_state \<lparr> selectedColumn := 3 \<rparr>) =
     Inr (initial_state \<lparr> selectedColumn := 3 \<rparr>) \<and>
   (\<exists>st. handle_events [''<Right>'', ''<Right>'', ''<Enter>'', ''<Right>'', ''<Right>'', ''<Left>'']
           initial_state = Inr st \<and> selectedColumn st = 2 \<and> sortReverse st)"
proof -
  have c0: "selectedColumn initial_state = 0"
    by (simp add: initial_state_def)
  have c3: "selectedColumn (initial_state \<lparr> selectedColumn := 3 \<rparr>) = 3"
    by simp
  note t = sort_column_in_range [THEN conjunct2, THEN conjunct2]
  from t [THEN conjunct1, rule_format, OF c0]
  have a: "handleProcessListEvents ''<Left>'' initial_state = Inr initial_state" .
  from t [THEN conjunct2, rule_format, OF c3]
  have b: "handleProcessListEvents ''<Right>'' (initial_state \<lparr> selectedColumn := 3 \<rparr>) =
     Inr (initial_state \<lparr> selectedColumn := 3 \<rparr>)" .
  have c: "\<exists>st. handle_events [''<Right>'', ''<Right>'', ''<Enter>'', ''<Right>'', ''<Right>'', ''<Left>'']
           initial_state = Inr st \<and> selectedColumn st = 2 \<and> sortReverse st"
    by (simp add: handleProcessListEvents_def initial_state_def sort_title_def columns_def)
  from c0 a c3 b c show ?thesis by blast
qed

end
